theory Spec2Isabelle
  imports Complex_Main
begin

section \<open>JavaScript helpers\<close>

text \<open>
  \<open>Array.prototype.indexOf\<close>: the position of the first element strictly equal to the
  argument, or \<open>-1\<close> when there is none.
\<close>

fun indexOf :: "'a list \<Rightarrow> 'a \<Rightarrow> int" where
  "indexOf [] y = -1"
| "indexOf (x # xs) y =
     (if x = y then 0 else (let i = indexOf xs y in if i < 0 then -1 else i + 1))"

text \<open>
  The remainder operator \<open>%\<close> on integers, for a divisor other than 0: the result
  takes the sign of the dividend (truncated division), unlike HOL's \<open>mod\<close>.
\<close>

definition js_rem :: "int \<Rightarrow> int \<Rightarrow> int" where
  "js_rem a b = sgn a * (\<bar>a\<bar> mod \<bar>b\<bar>)"

text \<open>
  Reading \<open>xs[i]\<close> from an array: \<open>undefined\<close> (here \<open>None\<close>) outside the array.
\<close>

definition js_nth :: "'a list \<Rightarrow> int \<Rightarrow> 'a option" where
  "js_nth xs i = (if 0 \<le> i \<and> i < int (length xs) then Some (xs ! nat i) else None)"


section \<open>EarthController of the alternate build (year switching, auto-play, globe rotation)\<close>

text \<open>
  The state of one \<open>EarthController\<close> object together with the closure variables of
  \<open>setupGlobeRotation\<close> and the part of the browser it talks to: the interval timers
  and animation-frame requests that are alive, and the log of the writes it makes to
  write-only collaborators (data panels, UI manager, narration audio, auto-play button).
  An object used as a dictionary is a map on its own keys.
\<close>

record sphere =
  sp_visible :: bool
  sp_rotation :: "real \<times> real"

record year_button =
  dataYear :: string
  active :: bool

record timer =
  tid :: nat
  period :: nat
  elapsed :: nat

datatype ec_effect =
    DataTextLeft string
  | DataTextRight string
  | UiUpdateSceneInfo string
  | NarrationPlay string
  | AutoPlayButton bool

record ec_dom =
  has_dataTextLeft :: bool
  has_dataTextRight :: bool
  has_narration :: "string \<Rightarrow> bool"
  has_uiManager :: bool
  has_autoPlayBtn :: bool

record earth =
  currentYear :: string
  autoPlay :: bool
  autoPlayTimer :: "nat option"
  autoPlayInterval :: nat
  earthSpheres :: "string \<rightharpoonup> sphere"
  yearButtons :: "year_button list"
  hotspots :: "(real \<times> real) list"
  globeRotation :: "real \<times> real"
  isRotatingGlobe :: bool
  isDragging :: bool
  previousMousePosition :: "real \<times> real"
  velocity :: "real \<times> real"
  lastMoveTime :: int
  inertiaAnimationId :: "nat option"
  intervals :: "timer list"
  nextTimerId :: nat
  frames :: "nat list"
  nextFrameId :: nat
  effects :: "ec_effect list"

definition years :: "string list" where
  "years = [''2000'', ''2010'', ''2020'', ''2050'']"

definition emit :: "ec_effect \<Rightarrow> earth \<Rightarrow> earth" where
  "emit e s = s\<lparr>effects := effects s @ [e]\<rparr>"

text \<open>\<open>updateDataPanels\<close>: \<open>dataContent\<close> has exactly the four keys of \<open>years\<close>.\<close>

definition updateDataPanels :: "ec_dom \<Rightarrow> string \<Rightarrow> earth \<Rightarrow> earth" where
  "updateDataPanels doc year s =
     (let s1 = (if has_dataTextLeft doc \<and> year \<in> set years then emit (DataTextLeft year) s else s)
      in if has_dataTextRight doc \<and> year \<in> set years then emit (DataTextRight year) s1 else s1)"

definition playNarration :: "ec_dom \<Rightarrow> string \<Rightarrow> earth \<Rightarrow> earth" where
  "playNarration doc year s = (if has_narration doc year then emit (NarrationPlay year) s else s)"

text \<open>
  \<open>switchYear\<close>, statement by statement: the early return on the current year, hide the
  current sphere when there is one, show the new sphere (with the globe's rotation) when
  there is one, mark the buttons, data panels, UI manager, narration, and last the
  assignment to \<open>currentYear\<close>. There is no test of the argument against the year set.
\<close>

definition switchYear :: "ec_dom \<Rightarrow> string \<Rightarrow> earth \<Rightarrow> earth" where
  "switchYear doc year s =
     (if currentYear s = year then s
      else
        let s1 = (case earthSpheres s (currentYear s) of
                    None \<Rightarrow> s
                  | Some sp \<Rightarrow> s\<lparr>earthSpheres := (earthSpheres s)(currentYear s \<mapsto> sp\<lparr>sp_visible := False\<rparr>)\<rparr>);
            s2 = (case earthSpheres s1 year of
                    None \<Rightarrow> s1
                  | Some sp \<Rightarrow> s1\<lparr>earthSpheres := (earthSpheres s1)(year \<mapsto>
                                  sp\<lparr>sp_visible := True, sp_rotation := globeRotation s1\<rparr>)\<rparr>);
            s3 = s2\<lparr>yearButtons := map (\<lambda>b. b\<lparr>active := (dataYear b = year)\<rparr>) (yearButtons s2)\<rparr>;
            s4 = updateDataPanels doc year s3;
            s5 = (if has_uiManager doc then emit (UiUpdateSceneInfo year) s4 else s4);
            s6 = playNarration doc year s5
        in s6\<lparr>currentYear := year\<rparr>)"

text \<open>
  \<open>nextYear\<close> and \<open>previousYear\<close>: \<open>indexOf\<close>, the remainder, the array read, and
  \<open>switchYear\<close> on what was read. The index computed is always inside the array, so the
  read never yields \<open>undefined\<close>; the model leaves the state alone in that impossible case.
\<close>

definition nextYear :: "ec_dom \<Rightarrow> earth \<Rightarrow> earth" where
  "nextYear doc s =
     (let currentIndex = indexOf years (currentYear s);
          nextIndex = js_rem (currentIndex + 1) (int (length years))
      in case js_nth years nextIndex of Some y \<Rightarrow> switchYear doc y s | None \<Rightarrow> s)"


text \<open>
  Auto-play. \<open>setInterval\<close> hands out a fresh positive handle and the timer starts its
  countdown at zero; \<open>clearInterval\<close> removes the timer with that handle.
\<close>

definition setInterval :: "nat \<Rightarrow> earth \<Rightarrow> nat \<times> earth" where
  "setInterval ms s =
     (let h = Suc (nextTimerId s)
      in (h, s\<lparr>intervals := intervals s @ [\<lparr>tid = h, period = ms, elapsed = 0\<rparr>], nextTimerId := h\<rparr>))"

definition clearInterval :: "nat \<Rightarrow> earth \<Rightarrow> earth" where
  "clearInterval h s = s\<lparr>intervals := filter (\<lambda>t. tid t \<noteq> h) (intervals s)\<rparr>"

definition startAutoPlay :: "ec_dom \<Rightarrow> earth \<Rightarrow> earth" where
  "startAutoPlay doc s =
     (let s1 = s\<lparr>autoPlay := True\<rparr>;
          (h, s2) = setInterval (autoPlayInterval s1) s1;
          s3 = s2\<lparr>autoPlayTimer := Some h\<rparr>
      in if has_autoPlayBtn doc then emit (AutoPlayButton True) s3 else s3)"

definition stopAutoPlay :: "ec_dom \<Rightarrow> earth \<Rightarrow> earth" where
  "stopAutoPlay doc s =
     (let s1 = s\<lparr>autoPlay := False\<rparr>;
          s2 = (case autoPlayTimer s1 of
                  None \<Rightarrow> s1
                | Some h \<Rightarrow> (clearInterval h s1)\<lparr>autoPlayTimer := None\<rparr>)
      in if has_autoPlayBtn doc then emit (AutoPlayButton False) s2 else s2)"

definition toggleAutoPlay :: "ec_dom \<Rightarrow> earth \<Rightarrow> earth" where
  "toggleAutoPlay doc s = (if autoPlay s then stopAutoPlay doc s else startAutoPlay doc s)"

definition resetAutoPlay :: "ec_dom \<Rightarrow> earth \<Rightarrow> earth" where
  "resetAutoPlay doc s =
     (if autoPlay s
      then startAutoPlay doc (case autoPlayTimer s of None \<Rightarrow> s | Some h \<Rightarrow> clearInterval h s)
      else s)"

text \<open>The click handler of a year button: \<open>switchYear\<close>, then \<open>resetAutoPlay\<close>.\<close>

definition yearButtonClick :: "ec_dom \<Rightarrow> string \<Rightarrow> earth \<Rightarrow> earth" where
  "yearButtonClick doc year s = resetAutoPlay doc (switchYear doc year s)"

text \<open>
  One millisecond of wall-clock time: every alive interval timer counts up, and a timer
  that reaches its period runs its callback (always \<open>nextYear\<close>, the only interval this
  class sets) and starts counting again.
\<close>

definition tick_ms :: "ec_dom \<Rightarrow> earth \<Rightarrow> earth" where
  "tick_ms doc s =
     (let ts = map (\<lambda>t. t\<lparr>elapsed := Suc (elapsed t)\<rparr>) (intervals s);
          due = filter (\<lambda>t. period t \<le> elapsed t) ts;
          s1 = s\<lparr>intervals := map (\<lambda>t. if period t \<le> elapsed t then t\<lparr>elapsed := 0\<rparr> else t) ts\<rparr>
      in foldl (\<lambda>s' t. nextYear doc s') s1 due)"


subsection \<open>Globe rotation with inertia (\<open>setupGlobeRotation\<close>)\<close>

text \<open>
  Rotations are \<open>(x, y)\<close> pairs in degrees: \<open>x\<close> is the pitch and \<open>y\<close> the yaw of the
  attribute string \<open>"x y 0"\<close>. Numbers are modelled as exact reals.
\<close>

definition rotationSpeed :: real where "rotationSpeed = 0.5"
definition damping :: real where "damping = 0.96"
definition minVelocity :: real where "minVelocity = 0.01"

text \<open>The loop over \<open>Object.values(this.earthSpheres)\<close>: every visible sphere gets the rotation.\<close>

definition rotateSpheres :: "earth \<Rightarrow> earth" where
  "rotateSpheres s =
     s\<lparr>earthSpheres := (\<lambda>k. map_option
          (\<lambda>sp. if sp_visible sp then sp\<lparr>sp_rotation := globeRotation s\<rparr> else sp)
          (earthSpheres s k))\<rparr>"

definition rotateHotspots :: "earth \<Rightarrow> earth" where
  "rotateHotspots s = s\<lparr>hotspots := map (\<lambda>_. globeRotation s) (hotspots s)\<rparr>"

definition requestAnimationFrame :: "earth \<Rightarrow> nat \<times> earth" where
  "requestAnimationFrame s =
     (let h = Suc (nextFrameId s) in (h, s\<lparr>frames := frames s @ [h], nextFrameId := h\<rparr>))"

definition cancelAnimationFrame :: "nat \<Rightarrow> earth \<Rightarrow> earth" where
  "cancelAnimationFrame h s = s\<lparr>frames := filter (\<lambda>f. f \<noteq> h) (frames s)\<rparr>"

definition applyInertia :: "earth \<Rightarrow> earth" where
  "applyInertia s =
     (if \<not> isDragging s \<and>
         (\<bar>fst (velocity s)\<bar> > minVelocity \<or> \<bar>snd (velocity s)\<bar> > minVelocity)
      then
        let s1 = s\<lparr>globeRotation := (fst (globeRotation s) + fst (velocity s),
                                      snd (globeRotation s) + snd (velocity s))\<rparr>;
            s2 = s1\<lparr>velocity := (fst (velocity s1) * damping, snd (velocity s1) * damping)\<rparr>;
            s3 = rotateHotspots (rotateSpheres s2);
            (h, s4) = requestAnimationFrame s3
        in s4\<lparr>inertiaAnimationId := Some h\<rparr>
      else s\<lparr>velocity := (0, 0)\<rparr>)"

text \<open>
  The browser runs the animation-frame callbacks that were pending when the frame began,
  unless cancelled in the meantime; the only callback ever requested is \<open>applyInertia\<close>.
\<close>

definition animationFrame :: "earth \<Rightarrow> earth" where
  "animationFrame s =
     foldl (\<lambda>s' h. if h \<in> set (frames s')
                    then applyInertia (s'\<lparr>frames := remove1 h (frames s')\<rparr>) else s')
           s (frames s)"

text \<open>
  The pointer handlers, which \<open>setupGlobeRotation\<close> registers when the page has the
  \<open>earth-container\<close> element. \<open>onUI\<close> says whether the event target lies inside a
  year button, the auto-play button or a UI panel; \<open>now\<close> is \<open>Date.now()\<close>. The mouse
  and touch handlers share their bodies but for the cursor style, which is not modelled.
\<close>

definition dragStart :: "real \<Rightarrow> real \<Rightarrow> int \<Rightarrow> earth \<Rightarrow> earth" where
  "dragStart x y now s =
     (let s1 = s\<lparr>isDragging := True, isRotatingGlobe := True, previousMousePosition := (x, y),
                  lastMoveTime := now, velocity := (0, 0)\<rparr>
      in case inertiaAnimationId s1 of None \<Rightarrow> s1 | Some h \<Rightarrow> cancelAnimationFrame h s1)"

definition dragMove :: "real \<Rightarrow> real \<Rightarrow> int \<Rightarrow> earth \<Rightarrow> earth" where
  "dragMove x y now s =
     (let deltaTime = now - lastMoveTime s;
          deltaX = x - fst (previousMousePosition s);
          deltaY = y - snd (previousMousePosition s);
          rotX = - deltaY * rotationSpeed;
          rotY = deltaX * rotationSpeed;
          s1 = s\<lparr>globeRotation := (fst (globeRotation s) + rotX, snd (globeRotation s) + rotY)\<rparr>;
          s2 = (if deltaTime > 0
                then s1\<lparr>velocity := (rotX / real_of_int (max deltaTime 1) * 10,
                                       rotY / real_of_int (max deltaTime 1) * 10)\<rparr>
                else s1);
          s3 = rotateHotspots (rotateSpheres s2)
      in s3\<lparr>previousMousePosition := (x, y), lastMoveTime := now\<rparr>)"

definition dragEnd :: "earth \<Rightarrow> earth" where
  "dragEnd s =
     (if isDragging s then applyInertia (s\<lparr>isDragging := False, isRotatingGlobe := False\<rparr>) else s)"

definition mousedown :: "bool \<Rightarrow> real \<Rightarrow> real \<Rightarrow> int \<Rightarrow> earth \<Rightarrow> earth" where
  "mousedown onUI x y now s = (if onUI then s else dragStart x y now s)"

definition mousemove :: "real \<Rightarrow> real \<Rightarrow> int \<Rightarrow> earth \<Rightarrow> earth" where
  "mousemove x y now s = (if \<not> isDragging s then s else dragMove x y now s)"

definition mouseup :: "earth \<Rightarrow> earth" where
  "mouseup s = dragEnd s"

text \<open>Touch handlers: \<open>n\<close> is \<open>e.touches.length\<close>, \<open>(x, y)\<close> the first touch.\<close>

definition touchstart :: "bool \<Rightarrow> nat \<Rightarrow> real \<Rightarrow> real \<Rightarrow> int \<Rightarrow> earth \<Rightarrow> earth" where
  "touchstart onUI n x y now s = (if onUI then s else if n = 1 then dragStart x y now s else s)"

definition touchmove :: "nat \<Rightarrow> real \<Rightarrow> real \<Rightarrow> int \<Rightarrow> earth \<Rightarrow> earth" where
  "touchmove n x y now s = (if \<not> isDragging s \<or> n \<noteq> 1 then s else dragMove x y now s)"

definition touchend :: "earth \<Rightarrow> earth" where
  "touchend s = dragEnd s"

subsection \<open>The controller as an event-driven machine\<close>

datatype ec_event =
    YearButtonClick string
  | SwitchYearCall string
  | AutoPlayButtonClick
  | Millisecond
  | MouseDown bool real real int
  | MouseMove real real int
  | MouseUp
  | TouchStart bool nat real real int
  | TouchMove nat real real int
  | TouchEnd
  | AnimationFrame

fun ec_step :: "ec_dom \<Rightarrow> earth \<Rightarrow> ec_event \<Rightarrow> earth" where
  "ec_step doc s (YearButtonClick y) = yearButtonClick doc y s"
| "ec_step doc s (SwitchYearCall y) = switchYear doc y s"
| "ec_step doc s AutoPlayButtonClick = toggleAutoPlay doc s"
| "ec_step doc s Millisecond = tick_ms doc s"
| "ec_step doc s (MouseDown onUI x y now) = mousedown onUI x y now s"
| "ec_step doc s (MouseMove x y now) = mousemove x y now s"
| "ec_step doc s MouseUp = mouseup s"
| "ec_step doc s (TouchStart onUI n x y now) = touchstart onUI n x y now s"
| "ec_step doc s (TouchMove n x y now) = touchmove n x y now s"
| "ec_step doc s TouchEnd = touchend s"
| "ec_step doc s AnimationFrame = animationFrame s"

definition ec_run :: "ec_dom \<Rightarrow> earth \<Rightarrow> ec_event list \<Rightarrow> earth" where
  "ec_run doc s evs = foldl (ec_step doc) s evs"

text \<open>
  The constructor. Its second statement reads the identifier \<open>True\<close>; an identifier is
  looked up in the scope, and a name with no binding raises \<open>ReferenceError\<close>. The
  remaining field initialisers run only when that read returns. (\<open>init\<close>, which the
  constructor calls last, only looks up DOM elements and registers the handlers above.)
\<close>

datatype js_value = JBool bool | JNull | JUndefined | JNumber real | JString string | JObject

datatype js_error = ReferenceError string

fun truthy :: "js_value \<Rightarrow> bool" where
  "truthy (JBool b) = b"
| "truthy JNull = False"
| "truthy JUndefined = False"
| "truthy (JNumber r) = (r \<noteq> 0)"
| "truthy (JString t) = (t \<noteq> [])"
| "truthy JObject = True"

definition readIdentifier :: "(string \<rightharpoonup> js_value) \<Rightarrow> string \<Rightarrow> js_error + js_value" where
  "readIdentifier scope name = (case scope name of None \<Rightarrow> Inl (ReferenceError name) | Some v \<Rightarrow> Inr v)"

definition EarthController_constructor :: "(string \<rightharpoonup> js_value) \<Rightarrow> js_error + earth" where
  "EarthController_constructor scope =
     (case readIdentifier scope ''True'' of
        Inl e \<Rightarrow> Inl e
      | Inr v \<Rightarrow> Inr \<lparr>currentYear = ''2000'', autoPlay = truthy v, autoPlayTimer = None,
                     autoPlayInterval = 5000, earthSpheres = Map.empty, yearButtons = [],
                     hotspots = [], globeRotation = (0, 0), isRotatingGlobe = False,
                     isDragging = False, previousMousePosition = (0, 0), velocity = (0, 0),
                     lastMoveTime = 0, inertiaAnimationId = None, intervals = [],
                     nextTimerId = 0, frames = [], nextFrameId = 0, effects = []\<rparr>)"

text \<open>
  The global names the scripts of the repository bind: the configuration constant, the
  classes, and the \<open>window\<close> properties they assign. None of them is \<open>True\<close>.
\<close>

definition repo_globals :: "string \<rightharpoonup> js_value" where
  "repo_globals = map_of
     [(''CONFIG'', JObject), (''EarthController'', JObject), (''UIManager'', JObject),
      (''AudioController'', JObject), (''AnimationController'', JObject),
      (''SceneManager'', JObject), (''GazeController'', JObject),
      (''earthController'', JNull), (''uiManager'', JNull), (''audioController'', JNull),
      (''animationController'', JNull), (''sceneManager'', JNull), (''gazeController'', JNull),
      (''oceanVR'', JObject), (''undefined'', JUndefined)]"


subsection \<open>Example page and invariants of the controller\<close>

text \<open>
  A controller as \<open>setup\<close> leaves it on a page with the four spheres, four year buttons
  and four hotspots, and the document of that page. \<open>ap\<close> is the initial \<open>autoPlay\<close> flag.
\<close>

definition page_earth :: "bool \<Rightarrow> earth" where
  "page_earth ap =
     \<lparr>currentYear = ''2000'', autoPlay = ap, autoPlayTimer = None, autoPlayInterval = 5000,
      earthSpheres = map_of
        [(''2000'', \<lparr>sp_visible = True, sp_rotation = (0, 0)\<rparr>),
         (''2010'', \<lparr>sp_visible = False, sp_rotation = (0, 0)\<rparr>),
         (''2020'', \<lparr>sp_visible = False, sp_rotation = (0, 0)\<rparr>),
         (''2050'', \<lparr>sp_visible = False, sp_rotation = (0, 0)\<rparr>)],
      yearButtons =
        [\<lparr>dataYear = ''2000'', active = True\<rparr>, \<lparr>dataYear = ''2010'', active = False\<rparr>,
         \<lparr>dataYear = ''2020'', active = False\<rparr>, \<lparr>dataYear = ''2050'', active = False\<rparr>],
      hotspots = [(0, 0), (0, 0), (0, 0), (0, 0)], globeRotation = (0, 0),
      isRotatingGlobe = False, isDragging = False, previousMousePosition = (0, 0),
      velocity = (0, 0), lastMoveTime = 0, inertiaAnimationId = None, intervals = [],
      nextTimerId = 0, frames = [], nextFrameId = 0, effects = []\<rparr>"

definition page_doc :: ec_dom where
  "page_doc = \<lparr>has_dataTextLeft = True, has_dataTextRight = True,
               has_narration = (\<lambda>y. y \<in> set years), has_uiManager = True,
               has_autoPlayBtn = True\<rparr>"

text \<open>
  At most the interval timer referenced by \<open>autoPlayTimer\<close> is alive, and a timer is
  referenced only while \<open>autoPlay\<close> is set.
\<close>

definition timers_ok :: "earth \<Rightarrow> bool" where
  "timers_ok s =
     (map tid (intervals s) = (case autoPlayTimer s of None \<Rightarrow> [] | Some h \<Rightarrow> [h]) \<and>
      (autoPlay s \<or> autoPlayTimer s = None))"

text \<open>
  At most the animation frame whose handle is in \<open>inertiaAnimationId\<close> is pending, and
  none is pending during a drag.
\<close>

definition frames_ok :: "earth \<Rightarrow> bool" where
  "frames_ok s =
     (frames s = [] \<or>
      (\<not> isDragging s \<and> frames s = (case inertiaAnimationId s of None \<Rightarrow> [] | Some h \<Rightarrow> [h])))"

text \<open>The velocity is above the stop threshold on some axis.\<close>

definition moving :: "earth \<Rightarrow> bool" where
  "moving s = (\<bar>fst (velocity s)\<bar> > minVelocity \<or> \<bar>snd (velocity s)\<bar> > minVelocity)"

text \<open>The inertia loop is running, or it has stopped.\<close>

definition coasting :: "earth \<Rightarrow> bool" where
  "coasting s = (\<not> isDragging s \<and> (\<exists>h. frames s = [h]))"

definition halted :: "earth \<Rightarrow> bool" where
  "halted s = (frames s = [] \<and> velocity s = (0, 0))"

text \<open>Example states: a drag in progress with a velocity estimate, and a corrupted year.\<close>

definition drag_example :: earth where
  "drag_example = (page_earth False)\<lparr>isDragging := True, velocity := (2, -1)\<rparr>"


section \<open>Manual rotation of the portal build's EarthController (\<open>setupEarthRotation\<close>)\<close>

text \<open>
  The closure variables of \<open>setupEarthRotation\<close> and the \<open>rotation\<close> attribute of the
  \<open>earth-container\<close> element it writes (without that element the function registers no
  handler). \<open>currentRotation\<close> is \<open>(x, y)\<close>: pitch and yaw. A mouse drag starts only on
  the canvas or the scene element; \<open>n\<close> is the number of touches of a touch event.
\<close>

record earth_rotation =
  er_isDragging :: bool
  er_previousMousePosition :: "real \<times> real"
  currentRotation :: "real \<times> real"
  containerRotation :: "real \<times> real"

definition er_move :: "real \<Rightarrow> real \<Rightarrow> earth_rotation \<Rightarrow> earth_rotation" where
  "er_move x y s =
     (let deltaX = x - fst (er_previousMousePosition s);
          deltaY = y - snd (er_previousMousePosition s);
          ry = snd (currentRotation s) + deltaX * 0.5;
          rx = fst (currentRotation s) - deltaY * 0.5;
          rx' = max (-90) (min 90 rx)
      in s\<lparr>currentRotation := (rx', ry), containerRotation := (rx', ry),
            er_previousMousePosition := (x, y)\<rparr>)"

datatype er_event =
    ErMouseDown string real real
  | ErMouseMove real real
  | ErMouseUp
  | ErTouchStart nat real real
  | ErTouchMove nat real real
  | ErTouchEnd

fun er_step :: "earth_rotation \<Rightarrow> er_event \<Rightarrow> earth_rotation" where
  "er_step s (ErMouseDown tagName x y) =
     (if tagName = ''CANVAS'' \<or> tagName = ''A-SCENE''
      then s\<lparr>er_isDragging := True, er_previousMousePosition := (x, y)\<rparr> else s)"
| "er_step s (ErMouseMove x y) = (if \<not> er_isDragging s then s else er_move x y s)"
| "er_step s ErMouseUp = s\<lparr>er_isDragging := False\<rparr>"
| "er_step s (ErTouchStart n x y) =
     (if n = 1 then s\<lparr>er_isDragging := True, er_previousMousePosition := (x, y)\<rparr> else s)"
| "er_step s (ErTouchMove n x y) = (if \<not> er_isDragging s \<or> n \<noteq> 1 then s else er_move x y s)"
| "er_step s ErTouchEnd = s\<lparr>er_isDragging := False\<rparr>"

definition er_init :: earth_rotation where
  "er_init = \<lparr>er_isDragging = False, er_previousMousePosition = (0, 0),
              currentRotation = (0, 0), containerRotation = (0, 0)\<rparr>"

definition er_run :: "earth_rotation \<Rightarrow> er_event list \<Rightarrow> earth_rotation" where
  "er_run s evs = foldl er_step s evs"

section \<open>AudioController: volume fades\<close>

text \<open>
  Every \<open>fadeIn\<close> and \<open>fadeOut\<close> call creates an interval timer whose closure holds the
  step counter and the constants computed at the call. The handle lives in a local
  \<open>const\<close> of the call, so only the timer's own callback can clear it. The state keeps
  the volume of every audio element, the alive fade timers, and two logs: every write
  to a \<open>volume\<close> property and every run of a completion callback.

  JavaScript numbers are IEEE doubles: each arithmetic operation returns the rounded
  exact result. The rounding is the parameter \<open>rnd\<close> (the identity gives exact
  arithmetic); \<open>Math.min\<close> and \<open>Math.max\<close> do not round.
\<close>

datatype fade_kind = FadingIn | FadingOut

record fade =
  fid :: nat
  channel :: nat
  kind :: fade_kind
  currentStep :: nat
  bound :: real
  volumeStep :: real
  stepTime :: real
  callback :: bool

record audio =
  volume :: "nat \<Rightarrow> real"
  masterVolume :: real
  fadeIntervals :: "fade list"
  nextFadeId :: nat
  volumeWrites :: "(nat \<times> real) list"
  callbackRuns :: "nat list"

record audio_cfg =
  fadeInTime :: real
  fadeOutTime :: real
  rnd :: "real \<Rightarrow> real"

definition steps :: nat where "steps = 20"

definition setVolume :: "nat \<Rightarrow> real \<Rightarrow> audio \<Rightarrow> audio" where
  "setVolume c v s = s\<lparr>volume := (volume s)(c := v), volumeWrites := volumeWrites s @ [(c, v)]\<rparr>"

definition clearFade :: "nat \<Rightarrow> audio \<Rightarrow> audio" where
  "clearFade h s = s\<lparr>fadeIntervals := filter (\<lambda>f. fid f \<noteq> h) (fadeIntervals s)\<rparr>"

definition setStep :: "nat \<Rightarrow> nat \<Rightarrow> audio \<Rightarrow> audio" where
  "setStep h k s =
     s\<lparr>fadeIntervals := map (\<lambda>f. if fid f = h then f\<lparr>currentStep := k\<rparr> else f) (fadeIntervals s)\<rparr>"

text \<open>\<open>fadeIn(audioEl)\<close>; \<open>None\<close> is a null or undefined element.\<close>

definition fadeIn :: "audio_cfg \<Rightarrow> nat option \<Rightarrow> audio \<Rightarrow> audio" where
  "fadeIn cfg audioEl s =
     (case audioEl of
        None \<Rightarrow> s
      | Some c \<Rightarrow>
          let targetVolume = masterVolume s;
              fadeTime = fadeInTime cfg;
              stepTime' = rnd cfg (fadeTime / real steps);
              volumeStep' = rnd cfg (targetVolume / real steps);
              s1 = setVolume c 0 s;
              h = Suc (nextFadeId s1)
          in s1\<lparr>fadeIntervals := fadeIntervals s1 @
                  [\<lparr>fid = h, channel = c, kind = FadingIn, currentStep = 0, bound = targetVolume,
                    volumeStep = volumeStep', stepTime = stepTime', callback = False\<rparr>],
                nextFadeId := h\<rparr>)"

text \<open>\<open>fadeOut(audioEl, callback)\<close>; \<open>cb\<close> says whether a callback was passed.\<close>

definition fadeOut :: "audio_cfg \<Rightarrow> nat option \<Rightarrow> bool \<Rightarrow> audio \<Rightarrow> audio" where
  "fadeOut cfg audioEl cb s =
     (case audioEl of
        None \<Rightarrow> s
      | Some c \<Rightarrow>
          let startVolume = volume s c;
              fadeTime = fadeOutTime cfg;
              stepTime' = rnd cfg (fadeTime / real steps);
              volumeStep' = rnd cfg (startVolume / real steps);
              h = Suc (nextFadeId s)
          in s\<lparr>fadeIntervals := fadeIntervals s @
                  [\<lparr>fid = h, channel = c, kind = FadingOut, currentStep = 0, bound = startVolume,
                    volumeStep = volumeStep', stepTime = stepTime', callback = cb\<rparr>],
               nextFadeId := h\<rparr>)"

text \<open>The interval callbacks of the two functions, run on the timer \<open>f\<close>.\<close>

definition fadeInTick :: "audio_cfg \<Rightarrow> fade \<Rightarrow> audio \<Rightarrow> audio" where
  "fadeInTick cfg f s =
     (let k = Suc (currentStep f);
          s1 = setStep (fid f) k s;
          s2 = setVolume (channel f) (min (rnd cfg (volumeStep f * real k)) (bound f)) s1
      in if k \<ge> steps then setVolume (channel f) (bound f) (clearFade (fid f) s2) else s2)"

definition fadeOutTick :: "audio_cfg \<Rightarrow> fade \<Rightarrow> audio \<Rightarrow> audio" where
  "fadeOutTick cfg f s =
     (let k = Suc (currentStep f);
          s1 = setStep (fid f) k s;
          s2 = setVolume (channel f)
                 (max (rnd cfg (bound f - rnd cfg (volumeStep f * real k))) 0) s1
      in if k \<ge> steps \<or> volume s2 (channel f) \<le> 0
         then let s3 = setVolume (channel f) 0 (clearFade (fid f) s2)
              in if callback f then s3\<lparr>callbackRuns := callbackRuns s3 @ [fid f]\<rparr> else s3
         else s2)"

text \<open>The browser fires timer \<open>h\<close>: nothing happens when it has been cleared.\<close>

definition fadeTick :: "audio_cfg \<Rightarrow> nat \<Rightarrow> audio \<Rightarrow> audio" where
  "fadeTick cfg h s =
     (case find (\<lambda>f. fid f = h) (fadeIntervals s) of
        None \<Rightarrow> s
      | Some f \<Rightarrow> (case kind f of FadingIn \<Rightarrow> fadeInTick cfg f s | FadingOut \<Rightarrow> fadeOutTick cfg f s))"

definition fadeTicks :: "audio_cfg \<Rightarrow> audio \<Rightarrow> nat list \<Rightarrow> audio" where
  "fadeTicks cfg s hs = foldl (\<lambda>s' h. fadeTick cfg h s') s hs"

definition channelFades :: "nat \<Rightarrow> audio \<Rightarrow> fade list" where
  "channelFades c s = filter (\<lambda>f. channel f = c) (fadeIntervals s)"


text \<open>
  The value the \<open>k\<close>-th run of the interval callback writes: the expressions
  \<open>Math.min(volumeStep * currentStep, targetVolume)\<close> of \<open>fadeIn\<close> and
  \<open>Math.max(startVolume - (volumeStep * currentStep), 0)\<close> of \<open>fadeOut\<close>, with
  \<open>volumeStep\<close> as computed at the call.
\<close>

definition fadeInLevel :: "audio_cfg \<Rightarrow> real \<Rightarrow> nat \<Rightarrow> real" where
  "fadeInLevel cfg targetVolume k =
     min (rnd cfg (rnd cfg (targetVolume / real steps) * real k)) targetVolume"

definition fadeOutLevel :: "audio_cfg \<Rightarrow> real \<Rightarrow> nat \<Rightarrow> real" where
  "fadeOutLevel cfg startVolume k =
     max (rnd cfg (startVolume - rnd cfg (rnd cfg (startVolume / real steps) * real k))) 0"

text \<open>The step counter of the alive timer with handle \<open>h\<close>, if there is one.\<close>

definition stepOf :: "nat \<Rightarrow> audio \<Rightarrow> nat option" where
  "stepOf h s = map_option currentStep (find (\<lambda>f. fid f = h) (fadeIntervals s))"

text \<open>
  A fade run to completion without interference: the call, then twenty firings of the
  timer the call created (a cleared timer no longer fires).
\<close>

definition fadeInRun :: "audio_cfg \<Rightarrow> nat \<Rightarrow> audio \<Rightarrow> audio" where
  "fadeInRun cfg c s = fadeTicks cfg (fadeIn cfg (Some c) s) (replicate steps (Suc (nextFadeId s)))"

definition fadeOutRun :: "audio_cfg \<Rightarrow> nat \<Rightarrow> bool \<Rightarrow> audio \<Rightarrow> audio" where
  "fadeOutRun cfg c cb s =
     fadeTicks cfg (fadeOut cfg (Some c) cb s) (replicate steps (Suc (nextFadeId s)))"

text \<open>The browser never hands out a handle twice: no alive timer has a handle still to come.\<close>

definition freshIds :: "audio \<Rightarrow> bool" where
  "freshIds s = list_all (\<lambda>f. fid f \<le> nextFadeId s) (fadeIntervals s)"

text \<open>The timers the two functions create.\<close>

definition fadeInTimer :: "audio_cfg \<Rightarrow> nat \<Rightarrow> audio \<Rightarrow> fade" where
  "fadeInTimer cfg c s =
     \<lparr>fid = Suc (nextFadeId s), channel = c, kind = FadingIn, currentStep = 0,
      bound = masterVolume s, volumeStep = rnd cfg (masterVolume s / real steps),
      stepTime = rnd cfg (fadeInTime cfg / real steps), callback = False\<rparr>"

definition fadeOutTimer :: "audio_cfg \<Rightarrow> nat \<Rightarrow> bool \<Rightarrow> audio \<Rightarrow> fade" where
  "fadeOutTimer cfg c cb s =
     \<lparr>fid = Suc (nextFadeId s), channel = c, kind = FadingOut, currentStep = 0,
      bound = volume s c, volumeStep = rnd cfg (volume s c / real steps),
      stepTime = rnd cfg (fadeOutTime cfg / real steps), callback = cb\<rparr>"

text \<open>
  Example: exact arithmetic with the fade times of the configuration file, and an audio
  controller with one element playing at the configured master volume and no fade running.
\<close>

definition exact_cfg :: audio_cfg where
  "exact_cfg = \<lparr>fadeInTime = 1000, fadeOutTime = 1000, rnd = (\<lambda>x. x)\<rparr>"

definition audio_example :: audio where
  "audio_example =
     \<lparr>volume = (\<lambda>c. 0.7), masterVolume = 0.7, fadeIntervals = [], nextFadeId = 0,
      volumeWrites = [], callbackRuns = []\<rparr>"

section \<open>SceneManager: guarded scene transitions\<close>

text \<open>
  \<open>switchScene\<close> is an \<open>async\<close> function with three \<open>await\<close>s. JavaScript runs the
  code between two suspension points without interruption, so one activation is four
  segments: from the call to the first \<open>await\<close>, and one after each \<open>await\<close>. A suspended
  activation is kept as its target and the \<open>await\<close> it is parked at; other events may be
  handled until the awaited promise resolves and the activation is resumed.

  The state has the fields of the object (\<open>sceneElements\<close> as the \<open>visible\<close> attribute of
  each scene element that was found), the suspended activations, the sequence of calls
  the transitions made (with the assignment to \<open>currentScene\<close> recorded among them), and
  the console. The environment says which scenes \<open>CONFIG.scenes\<close> has, which collaborator
  objects are installed on \<open>window\<close>, and which calls throw.
\<close>

datatype sm_call =
    FadeOut
  | StopSceneAudio string
  | HideScene string
  | Commit string
  | ShowScene string
  | UpdateSceneInfo string
  | StartSubtitles string
  | PlayTransition
  | Delay nat
  | FadeIn
  | PlaySceneAudio string
  | UpdateWaterLevel string

datatype sm_log =
    WarnTransitionInProgress
  | ErrorInvalidTarget string
  | LogAlreadyInScene string
  | LogTransitioning string string
  | LogHidden string
  | LogShowing string
  | LogTransitionComplete string
  | ErrorTransition sm_call

datatype phase = AwaitFadeOut | AwaitDelay | AwaitFadeIn

record overlay =
  ov_visible :: bool
  ov_opacity :: real
  ov_animation :: "real option"

record sm_env =
  scenes :: "string \<rightharpoonup> string"
  audioController :: bool
  uiManager :: bool
  animationController :: bool
  throws :: "sm_call \<Rightarrow> bool"

record scene_manager =
  currentScene :: string
  isTransitioning :: bool
  sceneElements :: "string \<rightharpoonup> bool"
  fadeOverlay :: "overlay option"
  suspended :: "(string \<times> phase) list"
  calls :: "sm_call list"
  console :: "sm_log list"

type_synonym sm_result = "(sm_call \<times> scene_manager) + scene_manager"

definition logc :: "sm_log \<Rightarrow> scene_manager \<Rightarrow> scene_manager" where
  "logc m s = s\<lparr>console := console s @ [m]\<rparr>"

text \<open>
  A call either throws (\<open>Inl\<close>, with the call that threw) or is recorded and has its
  effect \<open>f\<close> on the state; \<open>andThen\<close> sequences statements inside the \<open>try\<close> block, and
  \<open>whenPresent\<close> is the \<open>if (window.x) { ... }\<close> around a collaborator's calls.
\<close>

definition perform :: "sm_env \<Rightarrow> sm_call \<Rightarrow> (scene_manager \<Rightarrow> scene_manager) \<Rightarrow> scene_manager \<Rightarrow> sm_result" where
  "perform env c f s = (if throws env c then Inl (c, s) else Inr (f (s\<lparr>calls := calls s @ [c]\<rparr>)))"

definition andThen :: "sm_result \<Rightarrow> (scene_manager \<Rightarrow> sm_result) \<Rightarrow> sm_result" where
  "andThen r f = (case r of Inl e \<Rightarrow> Inl e | Inr s \<Rightarrow> f s)"

definition whenPresent :: "bool \<Rightarrow> (scene_manager \<Rightarrow> sm_result) \<Rightarrow> scene_manager \<Rightarrow> sm_result" where
  "whenPresent b f s = (if b then f s else Inr s)"

definition hideScene :: "string \<Rightarrow> scene_manager \<Rightarrow> scene_manager" where
  "hideScene year s =
     (case sceneElements s year of
        None \<Rightarrow> s
      | Some v \<Rightarrow> logc (LogHidden year) (s\<lparr>sceneElements := (sceneElements s)(year \<mapsto> False)\<rparr>))"

definition showScene :: "string \<Rightarrow> scene_manager \<Rightarrow> scene_manager" where
  "showScene year s =
     (case sceneElements s year of
        None \<Rightarrow> s
      | Some v \<Rightarrow> logc (LogShowing year) (s\<lparr>sceneElements := (sceneElements s)(year \<mapsto> True)\<rparr>))"

text \<open>
  The methods \<open>fadeOut\<close> and \<open>fadeIn\<close> of the scene manager (the screen overlay; named
  apart from the audio fades above). Without an overlay both resolve at once. The second
  half of \<open>fadeIn\<close> runs in its timeout, immediately before the promise resolves.
\<close>

definition overlayFadeOut :: "scene_manager \<Rightarrow> scene_manager" where
  "overlayFadeOut s =
     (case fadeOverlay s of
        None \<Rightarrow> s
      | Some ov \<Rightarrow> s\<lparr>fadeOverlay := Some (ov\<lparr>ov_visible := True, ov_opacity := 0, ov_animation := Some 1\<rparr>)\<rparr>)"

definition overlayFadeIn :: "scene_manager \<Rightarrow> scene_manager" where
  "overlayFadeIn s =
     (case fadeOverlay s of
        None \<Rightarrow> s
      | Some ov \<Rightarrow> s\<lparr>fadeOverlay := Some (ov\<lparr>ov_animation := Some 0\<rparr>)\<rparr>)"

definition overlayFadeInDone :: "scene_manager \<Rightarrow> scene_manager" where
  "overlayFadeInDone s =
     (case fadeOverlay s of
        None \<Rightarrow> s
      | Some ov \<Rightarrow> s\<lparr>fadeOverlay := Some (ov\<lparr>ov_visible := False\<rparr>)\<rparr>)"

text \<open>The four segments of the \<open>try\<close> block.\<close>

definition seg_begin :: "sm_env \<Rightarrow> scene_manager \<Rightarrow> sm_result" where
  "seg_begin env s = perform env FadeOut overlayFadeOut s"

definition seg_afterFadeOut :: "sm_env \<Rightarrow> string \<Rightarrow> scene_manager \<Rightarrow> sm_result" where
  "seg_afterFadeOut env targetYear s =
     andThen (whenPresent (audioController env)
                (\<lambda>s. perform env (StopSceneAudio (currentScene s)) id s) s) (\<lambda>s.
     andThen (perform env (HideScene (currentScene s)) (hideScene (currentScene s)) s) (\<lambda>s.
     andThen (Inr (s\<lparr>currentScene := targetYear, calls := calls s @ [Commit targetYear]\<rparr>)) (\<lambda>s.
     andThen (perform env (ShowScene targetYear) (showScene targetYear) s) (\<lambda>s.
     andThen (whenPresent (uiManager env)
                (\<lambda>s. andThen (perform env (UpdateSceneInfo targetYear) id s)
                               (perform env (StartSubtitles targetYear) id)) s) (\<lambda>s.
     andThen (whenPresent (audioController env) (perform env PlayTransition id) s) (\<lambda>s.
     perform env (Delay 300) id s))))))"

definition seg_afterDelay :: "sm_env \<Rightarrow> scene_manager \<Rightarrow> sm_result" where
  "seg_afterDelay env s = perform env FadeIn overlayFadeIn s"

definition seg_afterFadeIn :: "sm_env \<Rightarrow> string \<Rightarrow> scene_manager \<Rightarrow> sm_result" where
  "seg_afterFadeIn env targetYear s =
     andThen (whenPresent (audioController env) (perform env (PlaySceneAudio targetYear) id) s) (\<lambda>s.
     whenPresent (animationController env) (perform env (UpdateWaterLevel targetYear) id) s)"

text \<open>\<open>catch\<close> and \<open>finally\<close>; the end of the \<open>try\<close> block and \<open>finally\<close>; parking at an \<open>await\<close>.\<close>

definition catchFinally :: "sm_call \<Rightarrow> scene_manager \<Rightarrow> scene_manager" where
  "catchFinally c s = (logc (ErrorTransition c) s)\<lparr>isTransitioning := False\<rparr>"

definition await :: "string \<Rightarrow> phase \<Rightarrow> sm_result \<Rightarrow> scene_manager" where
  "await targetYear ph r =
     (case r of
        Inl (c, s) \<Rightarrow> catchFinally c s
      | Inr s \<Rightarrow> s\<lparr>suspended := suspended s @ [(targetYear, ph)]\<rparr>)"

definition tryEnd :: "string \<Rightarrow> sm_result \<Rightarrow> scene_manager" where
  "tryEnd targetYear r =
     (case r of
        Inl (c, s) \<Rightarrow> catchFinally c s
      | Inr s \<Rightarrow> (logc (LogTransitionComplete targetYear) s)\<lparr>isTransitioning := False\<rparr>)"

text \<open>The call of \<open>switchScene\<close>, up to its first \<open>await\<close>.\<close>

definition switchScene :: "sm_env \<Rightarrow> string \<Rightarrow> scene_manager \<Rightarrow> scene_manager" where
  "switchScene env targetYear s =
     (if isTransitioning s then logc WarnTransitionInProgress s
      else if scenes env targetYear = None then logc (ErrorInvalidTarget targetYear) s
      else if currentScene s = targetYear then logc (LogAlreadyInScene targetYear) s
      else await targetYear AwaitFadeOut
             (seg_begin env ((logc (LogTransitioning (currentScene s) targetYear) s)
                               \<lparr>isTransitioning := True\<rparr>)))"

text \<open>The promise the \<open>k\<close>-th suspended activation waits for resolves.\<close>

definition resume :: "sm_env \<Rightarrow> nat \<Rightarrow> scene_manager \<Rightarrow> scene_manager" where
  "resume env k s =
     (if k < length (suspended s)
      then
        let (targetYear, ph) = suspended s ! k;
            s1 = s\<lparr>suspended := take k (suspended s) @ drop (Suc k) (suspended s)\<rparr>
        in case ph of
             AwaitFadeOut \<Rightarrow> await targetYear AwaitDelay (seg_afterFadeOut env targetYear s1)
           | AwaitDelay \<Rightarrow> await targetYear AwaitFadeIn (seg_afterDelay env s1)
           | AwaitFadeIn \<Rightarrow> tryEnd targetYear (seg_afterFadeIn env targetYear (overlayFadeInDone s1))
      else s)"

datatype sm_event = SwitchScene string | Resume nat

fun sm_step :: "sm_env \<Rightarrow> scene_manager \<Rightarrow> sm_event \<Rightarrow> scene_manager" where
  "sm_step env s (SwitchScene y) = switchScene env y s"
| "sm_step env s (Resume k) = resume env k s"

definition sm_run :: "sm_env \<Rightarrow> scene_manager \<Rightarrow> sm_event list \<Rightarrow> scene_manager" where
  "sm_run env s evs = foldl (sm_step env) s evs"

text \<open>
  A run in which the environment may differ from event to event: collaborators come and
  go, and a call may throw at one time and not at another.
\<close>

definition sm_run_in :: "scene_manager \<Rightarrow> (sm_env \<times> sm_event) list \<Rightarrow> scene_manager" where
  "sm_run_in s evs = foldl (\<lambda>s' p. sm_step (fst p) s' (snd p)) s evs"


text \<open>
  The calls of one undisturbed transition from \<open>A\<close> to \<open>B\<close> in the order of the source
  text; the calls on a collaborator are there when the collaborator is installed.
\<close>

definition transitionCalls :: "sm_env \<Rightarrow> string \<Rightarrow> string \<Rightarrow> sm_call list" where
  "transitionCalls env A B =
     [FadeOut] @
     (if audioController env then [StopSceneAudio A] else []) @
     [HideScene A, Commit B, ShowScene B] @
     (if uiManager env then [UpdateSceneInfo B, StartSubtitles B] else []) @
     (if audioController env then [PlayTransition] else []) @
     [Delay 300, FadeIn] @
     (if audioController env then [PlaySceneAudio B] else []) @
     (if animationController env then [UpdateWaterLevel B] else [])"

text \<open>
  The guard invariant: at most one activation is suspended, and the flag
  \<open>isTransitioning\<close> is set exactly while one is.
\<close>

definition guard_inv :: "scene_manager \<Rightarrow> bool" where
  "guard_inv s = (length (suspended s) \<le> 1 \<and> (isTransitioning s = (suspended s \<noteq> [])))"

text \<open>
  An example environment and manager for the portal build: its three scenes (the
  bootstrap script's shortcuts switch to 2000, 2020 and 2050), every collaborator
  installed, no call throwing, all scene elements and the overlay found. The portal
  build's \<open>CONFIG\<close> is not among the sources, so the element ids are placeholders.
  In \<open>failing_env\<close> the audio controller's \<open>stopSceneAudio\<close> throws.
\<close>

definition portal_env :: sm_env where
  "portal_env =
     \<lparr>scenes = map_of [(''2000'', ''scene-2000''), (''2020'', ''scene-2020''),
                       (''2050'', ''scene-2050'')],
      audioController = True, uiManager = True, animationController = True,
      throws = (\<lambda>c. False)\<rparr>"

definition failing_env :: sm_env where
  "failing_env = portal_env\<lparr>throws := (\<lambda>c. c = StopSceneAudio ''2000'')\<rparr>"

definition portal_manager :: scene_manager where
  "portal_manager =
     \<lparr>currentScene = ''2000'', isTransitioning = False,
      sceneElements = map_of [(''2000'', True), (''2020'', False), (''2050'', False)],
      fadeOverlay = Some \<lparr>ov_visible = False, ov_opacity = 0, ov_animation = None\<rparr>,
      suspended = [], calls = [], console = []\<rparr>"

subsection \<open>Year sequence\<close>


lemma indexOf_nth_distinct: "distinct xs \<Longrightarrow> i < length xs \<Longrightarrow> indexOf xs (xs ! i) = int i"
proof (induction xs arbitrary: i)
  case Nil
  then show ?case by simp
next
  case (Cons x xs)
  show ?case
  proof (cases i)
    case 0
    then show ?thesis by simp
  next
    case (Suc j)
    with Cons.prems have "j < length xs" "distinct xs" "xs ! j \<noteq> x" by auto
    with Cons.IH[of j] Suc show ?thesis by (auto simp: Let_def)
  qed
qed

lemma switchYear_currentYear: "currentYear (switchYear doc y s) = y"
  by (auto simp: switchYear_def Let_def)

lemma switchYear_fields [simp]:
  "intervals (switchYear doc y s) = intervals s"
  "autoPlayTimer (switchYear doc y s) = autoPlayTimer s"
  "autoPlay (switchYear doc y s) = autoPlay s"
  "autoPlayInterval (switchYear doc y s) = autoPlayInterval s"
  "nextTimerId (switchYear doc y s) = nextTimerId s"
  "frames (switchYear doc y s) = frames s"
  "isDragging (switchYear doc y s) = isDragging s"
  "inertiaAnimationId (switchYear doc y s) = inertiaAnimationId s"
  "velocity (switchYear doc y s) = velocity s"
  "globeRotation (switchYear doc y s) = globeRotation s"
  by (auto simp: switchYear_def Let_def updateDataPanels_def playNarration_def emit_def
      split: option.splits)


lemma nextYear_fields [simp]:
  "intervals (nextYear doc s) = intervals s"
  "autoPlayTimer (nextYear doc s) = autoPlayTimer s"
  "autoPlay (nextYear doc s) = autoPlay s"
  "autoPlayInterval (nextYear doc s) = autoPlayInterval s"
  "nextTimerId (nextYear doc s) = nextTimerId s"
  "frames (nextYear doc s) = frames s"
  "isDragging (nextYear doc s) = isDragging s"
  "inertiaAnimationId (nextYear doc s) = inertiaAnimationId s"
  "velocity (nextYear doc s) = velocity s"
  "globeRotation (nextYear doc s) = globeRotation s"
  by (auto simp: nextYear_def Let_def split: option.splits)



lemma nextYear_valid:
  assumes "i < 4" "currentYear s = years ! i"
  shows "nextYear doc s = switchYear doc (years ! ((i + 1) mod 4)) s"
proof -
  have d: "distinct years" "length years = 4" by (simp_all add: years_def)
  have "indexOf years (currentYear s) = int i"
    using assms d indexOf_nth_distinct[of years i] by simp
  moreover have "js_rem (int i + 1) 4 = int ((i + 1) mod 4)"
    by (simp add: js_rem_def zmod_int add.commute)
  moreover have "(i + 1) mod 4 < 4" by simp
  ultimately show ?thesis using d by (simp add: nextYear_def js_nth_def Let_def)
qed

lemma nextYear_iter:
  assumes "currentYear s = ''2000''"
  shows "currentYear ((nextYear doc ^^ n) s) = years ! (n mod 4)"
proof (induction n)
  case 0
  then show ?case using assms by (simp add: years_def)
next
  case (Suc n)
  have "n mod 4 < 4" by simp
  from nextYear_valid[OF this, of "(nextYear doc ^^ n) s" doc] Suc.IH
  have "currentYear ((nextYear doc ^^ Suc n) s) = years ! ((n mod 4 + 1) mod 4)"
    by (simp add: switchYear_currentYear)
  then show ?case by (simp add: mod_Suc_eq)
qed

subsection \<open>Interval timers\<close>

lemma fire_fields [simp]:
  "intervals (foldl (\<lambda>s' t. nextYear doc s') s ts) = intervals s"
  "autoPlayTimer (foldl (\<lambda>s' t. nextYear doc s') s ts) = autoPlayTimer s"
  "autoPlay (foldl (\<lambda>s' t. nextYear doc s') s ts) = autoPlay s"
  "frames (foldl (\<lambda>s' t. nextYear doc s') s ts) = frames s"
  "isDragging (foldl (\<lambda>s' t. nextYear doc s') s ts) = isDragging s"
  "inertiaAnimationId (foldl (\<lambda>s' t. nextYear doc s') s ts) = inertiaAnimationId s"
  "globeRotation (foldl (\<lambda>s' t. nextYear doc s') s ts) = globeRotation s"
  by (induction ts arbitrary: s) auto

lemma tick_ms_single:
  assumes "intervals s = [t]"
  shows "tick_ms doc s =
     (if period t \<le> Suc (elapsed t)
      then nextYear doc (s\<lparr>intervals := [t\<lparr>elapsed := 0\<rparr>]\<rparr>)
      else s\<lparr>intervals := [t\<lparr>elapsed := Suc (elapsed t)\<rparr>]\<rparr>)"
  using assms by (simp add: tick_ms_def Let_def)

lemma tick_ms_quiet:
  assumes "intervals s = [t]" "elapsed t + n < period t"
  shows "(tick_ms doc ^^ n) s = s\<lparr>intervals := [t\<lparr>elapsed := elapsed t + n\<rparr>]\<rparr>"
  using assms
proof (induction n)
  case 0
  then show ?case by simp
next
  case (Suc n)
  then have "(tick_ms doc ^^ n) s = s\<lparr>intervals := [t\<lparr>elapsed := elapsed t + n\<rparr>]\<rparr>" by simp
  then show ?case using Suc.prems(2)
    by (simp add: tick_ms_single[of "s\<lparr>intervals := [t\<lparr>elapsed := elapsed t + n\<rparr>]\<rparr>" "t\<lparr>elapsed := elapsed t + n\<rparr>"])
qed

lemma resetAutoPlay_one:
  assumes "autoPlay s" "timers_ok s"
  shows "intervals (resetAutoPlay doc s) =
           [\<lparr>tid = Suc (nextTimerId s), period = autoPlayInterval s, elapsed = 0\<rparr>]"
    and "autoPlayTimer (resetAutoPlay doc s) = Some (Suc (nextTimerId s))"
    and "currentYear (resetAutoPlay doc s) = currentYear s"
  using assms
  by (auto simp: resetAutoPlay_def startAutoPlay_def setInterval_def clearInterval_def timers_ok_def
      emit_def Let_def split: option.splits)


subsection \<open>Inertia\<close>

lemma animationFrame_idle: "frames s = [] \<Longrightarrow> animationFrame s = s"
  by (simp add: animationFrame_def)

lemma animationFrame_one: "frames s = [h] \<Longrightarrow> animationFrame s = applyInertia (s\<lparr>frames := []\<rparr>)"
  by (simp add: animationFrame_def)

lemma applyInertia_moving:
  assumes "\<not> isDragging s" "moving s" "frames s = []"
  shows "frames (applyInertia s) = [Suc (nextFrameId s)]"
    "inertiaAnimationId (applyInertia s) = Some (Suc (nextFrameId s))"
    "\<not> isDragging (applyInertia s)"
    "velocity (applyInertia s) = (fst (velocity s) * damping, snd (velocity s) * damping)"
    "globeRotation (applyInertia s) = (fst (globeRotation s) + fst (velocity s), snd (globeRotation s) + snd (velocity s))"
  using assms
  by (simp_all add: applyInertia_def moving_def Let_def requestAnimationFrame_def rotateHotspots_def rotateSpheres_def)

lemma applyInertia_still:
  assumes "isDragging s \<or> \<not> moving s"
  shows "applyInertia s = s\<lparr>velocity := (0, 0)\<rparr>"
  using assms by (auto simp: applyInertia_def moving_def)

lemma frame_coasting:
  assumes "coasting s"
  shows "if moving s
         then coasting (animationFrame s) \<and>
              velocity (animationFrame s) = (fst (velocity s) * damping, snd (velocity s) * damping) \<and>
              globeRotation (animationFrame s) = (fst (globeRotation s) + fst (velocity s), snd (globeRotation s) + snd (velocity s))
         else halted (animationFrame s) \<and> globeRotation (animationFrame s) = globeRotation s"
proof -
  from assms obtain h where h: "frames s = [h]" and d: "\<not> isDragging s" by (auto simp: coasting_def)
  let ?s = "s\<lparr>frames := []\<rparr>"
  have m: "moving ?s = moving s" by (simp add: moving_def)
  show ?thesis
  proof (cases "moving s")
    case True
    with applyInertia_moving[of ?s] d m show ?thesis
      by (simp add: animationFrame_one[OF h] coasting_def)
  next
    case False
    with applyInertia_still[of ?s] m show ?thesis
      by (simp add: animationFrame_one[OF h] halted_def)
  qed
qed

lemma halted_frame: "halted s \<Longrightarrow> animationFrame s = s"
  by (simp add: halted_def animationFrame_idle)

lemma halted_frames: "halted s \<Longrightarrow> (animationFrame ^^ n) s = s"
  by (induction n) (simp_all add: halted_frame)

lemma damping_bounds: "0 < damping" "damping < 1"
  by (simp_all add: damping_def)

lemma coasting_halts:
  assumes "coasting s" "\<bar>fst (velocity s)\<bar> * damping ^ N \<le> minVelocity" "\<bar>snd (velocity s)\<bar> * damping ^ N \<le> minVelocity"
  shows "\<exists>M\<le>Suc N. halted ((animationFrame ^^ M) s)"
  using assms
proof (induction N arbitrary: s)
  case 0
  then have nm: "\<not> moving s" by (simp add: moving_def)
  from frame_coasting[OF "0.prems"(1)] nm have "halted (animationFrame s)" by simp
  then have "halted ((animationFrame ^^ Suc 0) s)" by simp
  then show ?case by (intro exI[of _ "Suc 0"]) simp
next
  case (Suc N)
  show ?case
  proof (cases "moving s")
    case False
    from frame_coasting[OF Suc.prems(1)] False have "halted (animationFrame s)" by simp
    then have "halted ((animationFrame ^^ Suc 0) s)" by simp
    then show ?thesis by (intro exI[of _ "Suc 0"]) simp
  next
    case True
    from frame_coasting[OF Suc.prems(1)] True have c: "coasting (animationFrame s)"
      and v: "velocity (animationFrame s) = (fst (velocity s) * damping, snd (velocity s) * damping)" by simp_all
    have d: "\<bar>damping\<bar> = damping" using damping_bounds(1) by simp
    have e1: "\<bar>fst (velocity (animationFrame s))\<bar> * damping ^ N = \<bar>fst (velocity s)\<bar> * damping ^ Suc N"
      by (simp add: v abs_mult d)
    have e2: "\<bar>snd (velocity (animationFrame s))\<bar> * damping ^ N = \<bar>snd (velocity s)\<bar> * damping ^ Suc N"
      by (simp add: v abs_mult d)
    have "\<bar>fst (velocity (animationFrame s))\<bar> * damping ^ N \<le> minVelocity"
         "\<bar>snd (velocity (animationFrame s))\<bar> * damping ^ N \<le> minVelocity"
      unfolding e1 e2 by (rule Suc.prems(2), rule Suc.prems(3))
    from Suc.IH[OF c this] obtain M where M: "M \<le> Suc N" "halted ((animationFrame ^^ M) (animationFrame s))" by blast
    from M(2) have "halted ((animationFrame ^^ Suc M) s)" by (simp add: funpow_swap1)
    with M(1) show ?thesis by (intro exI[of _ "Suc M"]) simp
  qed
qed

lemma decay_exists: "\<exists>N. \<bar>a\<bar> * damping ^ N \<le> minVelocity \<and> \<bar>b\<bar> * damping ^ N \<le> minVelocity"
proof -
  define m where "m = max \<bar>a\<bar> \<bar>b\<bar> + 1"
  have m: "0 < m" "\<bar>a\<bar> \<le> m" "\<bar>b\<bar> \<le> m" by (simp_all add: m_def)
  have pos: "0 < minVelocity / m" using m(1) by (simp add: minVelocity_def)
  from real_arch_pow_inv[OF pos damping_bounds(2)] obtain N where N: "damping ^ N < minVelocity / m" by blast
  have p: "0 \<le> damping ^ N" using damping_bounds(1) by simp
  from N m(1) have lt: "damping ^ N * m < minVelocity" by (simp only: pos_less_divide_eq)
  have "\<bar>a\<bar> * damping ^ N \<le> m * damping ^ N" using m(2) p by (rule mult_right_mono)
  moreover have "\<bar>b\<bar> * damping ^ N \<le> m * damping ^ N" using m(3) p by (rule mult_right_mono)
  moreover have "m * damping ^ N < minVelocity" using lt by (simp only: mult.commute)
  ultimately have "\<bar>a\<bar> * damping ^ N \<le> minVelocity \<and> \<bar>b\<bar> * damping ^ N \<le> minVelocity" by linarith
  then show ?thesis ..
qed


lemma applyInertia_frames_ok: "frames s = [] \<Longrightarrow> frames_ok (applyInertia s)"
  by (auto simp: applyInertia_def frames_ok_def Let_def requestAnimationFrame_def
      rotateHotspots_def rotateSpheres_def)

lemma applyInertia_timers [simp]:
  "intervals (applyInertia s) = intervals s" "autoPlayTimer (applyInertia s) = autoPlayTimer s"
  "autoPlay (applyInertia s) = autoPlay s"
  by (auto simp: applyInertia_def Let_def requestAnimationFrame_def rotateHotspots_def
      rotateSpheres_def)

lemma frameFold_timers:
  "intervals (foldl (\<lambda>s' h. if h \<in> set (frames s')
       then applyInertia (s'\<lparr>frames := remove1 h (frames s')\<rparr>) else s') s hs) = intervals s \<and>
   autoPlayTimer (foldl (\<lambda>s' h. if h \<in> set (frames s')
       then applyInertia (s'\<lparr>frames := remove1 h (frames s')\<rparr>) else s') s hs) = autoPlayTimer s \<and>
   autoPlay (foldl (\<lambda>s' h. if h \<in> set (frames s')
       then applyInertia (s'\<lparr>frames := remove1 h (frames s')\<rparr>) else s') s hs) = autoPlay s"
  by (induction hs arbitrary: s) auto

lemma animationFrame_timers [simp]:
  "intervals (animationFrame s) = intervals s" "autoPlayTimer (animationFrame s) = autoPlayTimer s"
  "autoPlay (animationFrame s) = autoPlay s"
  by (simp_all add: animationFrame_def frameFold_timers)

lemma drag_timers [simp]:
  "intervals (dragStart x y now s) = intervals s" "autoPlayTimer (dragStart x y now s) = autoPlayTimer s"
  "autoPlay (dragStart x y now s) = autoPlay s"
  "intervals (dragMove x y now s) = intervals s" "autoPlayTimer (dragMove x y now s) = autoPlayTimer s"
  "autoPlay (dragMove x y now s) = autoPlay s"
  "intervals (dragEnd s) = intervals s" "autoPlayTimer (dragEnd s) = autoPlayTimer s"
  "autoPlay (dragEnd s) = autoPlay s"
  by (auto simp: dragStart_def dragMove_def dragEnd_def cancelAnimationFrame_def rotateHotspots_def
      rotateSpheres_def Let_def split: option.splits)

lemma resetAutoPlay_timers_ok: "timers_ok s \<Longrightarrow> timers_ok (resetAutoPlay doc s)"
  by (auto simp: timers_ok_def resetAutoPlay_def startAutoPlay_def setInterval_def clearInterval_def
      emit_def Let_def split: option.splits)

lemma toggleAutoPlay_timers_ok: "timers_ok s \<Longrightarrow> timers_ok (toggleAutoPlay doc s)"
  by (auto simp: timers_ok_def toggleAutoPlay_def stopAutoPlay_def startAutoPlay_def setInterval_def
      clearInterval_def emit_def Let_def split: option.splits)

lemma tick_ms_timers_ok: "timers_ok s \<Longrightarrow> timers_ok (tick_ms doc s)"
  by (auto simp: timers_ok_def tick_ms_def Let_def o_def split: option.splits)

lemma timers_ok_step: "timers_ok s \<Longrightarrow> timers_ok (ec_step doc s ev)"
proof (cases ev)
  case (YearButtonClick y)
  assume "timers_ok s"
  then have "timers_ok (switchYear doc y s)" by (simp add: timers_ok_def)
  then show ?thesis using YearButtonClick by (simp add: yearButtonClick_def resetAutoPlay_timers_ok)
qed (simp_all add: timers_ok_def[of "switchYear doc _ s"] toggleAutoPlay_timers_ok tick_ms_timers_ok,
     simp_all add: timers_ok_def mousedown_def mousemove_def mouseup_def touchstart_def
       touchmove_def touchend_def)

lemma timers_ok_run: "timers_ok s \<Longrightarrow> timers_ok (ec_run doc s evs)"
  unfolding ec_run_def by (induction evs arbitrary: s) (simp_all add: timers_ok_step)

lemma timers_ok_length: "timers_ok s \<Longrightarrow> length (intervals s) \<le> 1"
proof -
  assume "timers_ok s"
  then have "length (map tid (intervals s)) \<le> 1" by (auto simp: timers_ok_def split: option.splits)
  then show ?thesis by simp
qed

lemma frames_ok_fields:
  assumes "frames s' = frames s" "isDragging s' = isDragging s" "inertiaAnimationId s' = inertiaAnimationId s"
  shows "frames_ok s' = frames_ok s"
  using assms by (simp add: frames_ok_def)

lemma frames_ok_dragStart: "frames_ok s \<Longrightarrow> frames (dragStart x y now s) = []"
  by (auto simp: frames_ok_def dragStart_def cancelAnimationFrame_def Let_def split: option.splits)

lemma frames_ok_dragMove: "frames_ok s \<Longrightarrow> isDragging s \<Longrightarrow> frames (dragMove x y now s) = []"
  by (auto simp: frames_ok_def dragMove_def rotateHotspots_def rotateSpheres_def Let_def)

lemma frames_ok_dragEnd: "frames_ok s \<Longrightarrow> frames_ok (dragEnd s)"
proof (cases "isDragging s")
  case False
  assume "frames_ok s"
  with False show ?thesis by (simp add: dragEnd_def)
next
  case True
  assume "frames_ok s"
  with True have "frames (s\<lparr>isDragging := False, isRotatingGlobe := False\<rparr>) = []"
    by (auto simp: frames_ok_def)
  from applyInertia_frames_ok[OF this] True show ?thesis by (simp add: dragEnd_def)
qed

lemma frames_ok_animationFrame: "frames_ok s \<Longrightarrow> frames_ok (animationFrame s)"
proof (cases "frames s")
  case Nil
  assume "frames_ok s"
  with Nil show ?thesis by (simp add: animationFrame_idle)
next
  case (Cons h hs)
  assume "frames_ok s"
  with Cons have one: "frames s = [h]" by (auto simp: frames_ok_def split: option.splits)
  have "frames (s\<lparr>frames := []\<rparr>) = []" by simp
  from applyInertia_frames_ok[OF this] show ?thesis by (simp add: animationFrame_one[OF one])
qed

lemma frames_ok_step: "frames_ok s \<Longrightarrow> frames_ok (ec_step doc s ev)"
proof (cases ev)
  case (YearButtonClick y)
  assume "frames_ok s"
  then show ?thesis using YearButtonClick
    by (auto simp: frames_ok_def yearButtonClick_def resetAutoPlay_def startAutoPlay_def
        setInterval_def clearInterval_def emit_def Let_def split: option.splits)
next
  case (SwitchYearCall y)
  assume "frames_ok s"
  then show ?thesis using SwitchYearCall by (simp add: frames_ok_def)
next
  case AutoPlayButtonClick
  assume "frames_ok s"
  then show ?thesis using AutoPlayButtonClick
    by (auto simp: frames_ok_def toggleAutoPlay_def stopAutoPlay_def startAutoPlay_def
        setInterval_def clearInterval_def emit_def Let_def split: option.splits)
next
  case Millisecond
  assume "frames_ok s"
  then show ?thesis using Millisecond by (simp add: frames_ok_def tick_ms_def Let_def)
next
  case (MouseDown onUI x y now)
  assume f: "frames_ok s"
  from frames_ok_dragStart[OF f, of x y now] f show ?thesis using MouseDown
    by (simp add: mousedown_def frames_ok_def)
next
  case (MouseMove x y now)
  assume f: "frames_ok s"
  from frames_ok_dragMove[OF f, of x y now] f show ?thesis using MouseMove
    by (auto simp: mousemove_def frames_ok_def)
next
  case MouseUp
  assume "frames_ok s"
  then show ?thesis using MouseUp by (simp add: mouseup_def frames_ok_dragEnd)
next
  case (TouchStart onUI n x y now)
  assume f: "frames_ok s"
  from frames_ok_dragStart[OF f, of x y now] f show ?thesis using TouchStart
    by (simp add: touchstart_def frames_ok_def)
next
  case (TouchMove n x y now)
  assume f: "frames_ok s"
  from frames_ok_dragMove[OF f, of x y now] f show ?thesis using TouchMove
    by (auto simp: touchmove_def frames_ok_def)
next
  case TouchEnd
  assume "frames_ok s"
  then show ?thesis using TouchEnd by (simp add: touchend_def frames_ok_dragEnd)
next
  case AnimationFrame
  assume "frames_ok s"
  then show ?thesis using AnimationFrame by (simp add: frames_ok_animationFrame)
qed

lemma frames_ok_run: "frames_ok s \<Longrightarrow> frames_ok (ec_run doc s evs)"
  unfolding ec_run_def by (induction evs arbitrary: s) (simp_all add: frames_ok_step)

lemma dragStart_halts:
  assumes "frames_ok s"
  shows "frames (dragStart x y now s) = []" "isDragging (dragStart x y now s)"
    "(animationFrame ^^ n) (dragStart x y now s) = dragStart x y now s"
    "globeRotation (applyInertia (dragStart x y now s)) = globeRotation (dragStart x y now s)"
proof -
  show f: "frames (dragStart x y now s) = []" by (rule frames_ok_dragStart[OF assms])
  show d: "isDragging (dragStart x y now s)"
    by (auto simp: dragStart_def cancelAnimationFrame_def Let_def split: option.splits)
  show "(animationFrame ^^ n) (dragStart x y now s) = dragStart x y now s"
    by (induction n) (simp_all add: animationFrame_idle[OF f])
  show "globeRotation (applyInertia (dragStart x y now s)) = globeRotation (dragStart x y now s)"
    using d by (simp add: applyInertia_still)
qed

lemma release_coasting:
  assumes "isDragging s" "frames s = []" "moving s"
  shows "coasting (mouseup s)"
proof -
  let ?s = "s\<lparr>isDragging := False, isRotatingGlobe := False\<rparr>"
  have m: "moving ?s" using assms(3) by (simp add: moving_def)
  from applyInertia_moving[of ?s] m assms(2) show ?thesis
    using assms(1) by (simp add: mouseup_def dragEnd_def coasting_def)
qed

lemma coasting_stops:
  assumes "coasting s"
  shows "\<exists>N. halted ((animationFrame ^^ N) s) \<and> (\<forall>n\<ge>N. (animationFrame ^^ n) s = (animationFrame ^^ N) s)"
proof -
  from decay_exists[of "fst (velocity s)" "snd (velocity s)"] obtain N0 where
    "\<bar>fst (velocity s)\<bar> * damping ^ N0 \<le> minVelocity" "\<bar>snd (velocity s)\<bar> * damping ^ N0 \<le> minVelocity"
    by auto
  from coasting_halts[OF assms this] obtain M where M: "halted ((animationFrame ^^ M) s)" by auto
  have "(animationFrame ^^ n) s = (animationFrame ^^ M) s" if "M \<le> n" for n
  proof -
    from that obtain d where "n = d + M" using le_Suc_ex add.commute by blast
    then show ?thesis by (simp add: funpow_add halted_frames[OF M])
  qed
  with M show ?thesis by blast
qed

lemma frames_ok_coast:
  assumes "frames_ok s"
  shows "frames_ok ((animationFrame ^^ k) s)"
  by (induction k) (simp_all add: assms frames_ok_animationFrame)

text \<open>
  Claim C7. Releasing a drag whose velocity estimate is above the threshold on some axis
  starts the inertia loop (the first inertia step runs at the release itself). The loop
  changes the rotation for finitely many animation frames only: there is a frame count
  \<open>N\<close> after which no frame is pending, the velocity is zero and every later frame
  leaves the whole state as it is. While the loop runs, a frame with the velocity above
  the threshold adds the velocity to the rotation and multiplies both velocity components
  by the damping factor, which lies strictly between 0 and 1; the first frame that finds
  both components at or below the threshold zeroes the velocity, leaves the rotation alone
  and requests no further frame. A mouse-down or single-finger touch-start outside the UI
  at any moment of the loop cancels the pending frame, so no later animation frame changes
  anything.
\<close>

theorem inertia_bounded_and_interruptible:
  assumes "isDragging s" "frames s = []" "moving s"
  shows "coasting (mouseup s) \<and>
    (\<exists>N. halted ((animationFrame ^^ N) (mouseup s)) \<and>
         (\<forall>n\<ge>N. (animationFrame ^^ n) (mouseup s) = (animationFrame ^^ N) (mouseup s))) \<and>
    0 < damping \<and> damping < 1 \<and>
    (\<forall>s'. coasting s' \<longrightarrow>
       (if moving s'
        then coasting (animationFrame s') \<and>
             velocity (animationFrame s') = (fst (velocity s') * damping, snd (velocity s') * damping) \<and>
             globeRotation (animationFrame s') =
               (fst (globeRotation s') + fst (velocity s'), snd (globeRotation s') + snd (velocity s'))
        else halted (animationFrame s') \<and> globeRotation (animationFrame s') = globeRotation s')) \<and>
    (\<forall>k x y now n.
       frames (mousedown False x y now ((animationFrame ^^ k) (mouseup s))) = [] \<and>
       (animationFrame ^^ n) (mousedown False x y now ((animationFrame ^^ k) (mouseup s))) =
         mousedown False x y now ((animationFrame ^^ k) (mouseup s)) \<and>
       frames (touchstart False 1 x y now ((animationFrame ^^ k) (mouseup s))) = [] \<and>
       (animationFrame ^^ n) (touchstart False 1 x y now ((animationFrame ^^ k) (mouseup s))) =
         touchstart False 1 x y now ((animationFrame ^^ k) (mouseup s)))"
proof -
  have c: "coasting (mouseup s)" by (rule release_coasting[OF assms])
  have "frames_ok s" using assms(2) by (simp add: frames_ok_def)
  then have "frames_ok (mouseup s)" by (simp add: mouseup_def frames_ok_dragEnd)
  then have ok: "frames_ok ((animationFrame ^^ k) (mouseup s))" for k by (rule frames_ok_coast)
  have drag: "frames (mousedown False x y now ((animationFrame ^^ k) (mouseup s))) = [] \<and>
       (animationFrame ^^ n) (mousedown False x y now ((animationFrame ^^ k) (mouseup s))) =
         mousedown False x y now ((animationFrame ^^ k) (mouseup s)) \<and>
       frames (touchstart False 1 x y now ((animationFrame ^^ k) (mouseup s))) = [] \<and>
       (animationFrame ^^ n) (touchstart False 1 x y now ((animationFrame ^^ k) (mouseup s))) =
         touchstart False 1 x y now ((animationFrame ^^ k) (mouseup s))" for k x y now n
    using dragStart_halts(1,3)[OF ok] by (simp add: mousedown_def touchstart_def)
  show ?thesis using c coasting_stops[OF c] damping_bounds frame_coasting drag by blast
qed

theorem inertia_bounded_and_interruptible_witness:
  "isDragging drag_example \<and> frames drag_example = [] \<and> moving drag_example \<and>
   coasting (mouseup drag_example) \<and>
   (\<exists>N. halted ((animationFrame ^^ N) (mouseup drag_example))) \<and>
   frames (mousedown False 10 20 5 (animationFrame (mouseup drag_example))) = []"
proof -
  have h: "isDragging drag_example" "frames drag_example = []" "moving drag_example"
    by (simp_all add: drag_example_def page_earth_def moving_def minVelocity_def)
  have "frames (mousedown False 10 20 5 ((animationFrame ^^ 1) (mouseup drag_example))) = []"
    using inertia_bounded_and_interruptible[OF h] by blast
  then show ?thesis using inertia_bounded_and_interruptible[OF h] h by auto
qed

lemma nextYear_currentYear:
  "currentYear (nextYear doc s) =
     (case js_nth years (js_rem (indexOf years (currentYear s) + 1) (int (length years))) of
        Some y \<Rightarrow> y | None \<Rightarrow> currentYear s)"
  by (simp add: nextYear_def Let_def switchYear_currentYear split: option.splits)

lemma tick_ms_fires:
  assumes "intervals s = [t]" "elapsed t = 0" "0 < period t"
  shows "currentYear ((tick_ms doc ^^ period t) s) = currentYear (nextYear doc s)"
proof -
  obtain p where p: "period t = Suc p" using assms(3) by (cases "period t") auto
  have q: "(tick_ms doc ^^ p) s = s\<lparr>intervals := [t\<lparr>elapsed := elapsed t + p\<rparr>]\<rparr>"
    using assms p by (intro tick_ms_quiet) simp_all
  have "(tick_ms doc ^^ period t) s = tick_ms doc (s\<lparr>intervals := [t\<lparr>elapsed := p\<rparr>]\<rparr>)"
    using q assms(2) by (simp add: p)
  also have "\<dots> = nextYear doc (s\<lparr>intervals := [t\<lparr>elapsed := 0\<rparr>]\<rparr>)"
    using p by (simp add: tick_ms_single[of _ "t\<lparr>elapsed := p\<rparr>"])
  finally show ?thesis by (simp add: nextYear_currentYear split: option.splits)
qed

text \<open>
  Claim C8. In every state the controller reaches by its events: when the current year
  is at position \<open>i\<close> of the year sequence, \<open>nextYear\<close> switches to the year at
  position \<open>(i + 1) mod 4\<close>, so from 2000 the ticks visit 2010, 2020, 2050, 2000, 2010
  and so on cyclically; at most one interval timer is alive; and with auto-play on,
  \<open>resetAutoPlay\<close> leaves exactly one timer, a new one whose countdown starts at zero:
  it does not fire during the first \<open>autoPlayInterval - 1\<close> milliseconds and fires
  \<open>nextYear\<close> when the full interval has passed. A click on a year button (a manual
  change followed by \<open>resetAutoPlay\<close>) also leaves at most one timer alive.
\<close>

theorem autoplay_cycle_and_reset:
  assumes "timers_ok s0" and "s = ec_run doc s0 evs"
  shows "(\<forall>i<4. currentYear s = years ! i \<longrightarrow>
            nextYear doc s = switchYear doc (years ! ((i + 1) mod 4)) s \<and>
            currentYear (nextYear doc s) = years ! ((i + 1) mod 4)) \<and>
         (currentYear s = ''2000'' \<longrightarrow>
            map (\<lambda>n. currentYear ((nextYear doc ^^ n) s)) [1..<6] =
              [''2010'', ''2020'', ''2050'', ''2000'', ''2010''] \<and>
            (\<forall>n. currentYear ((nextYear doc ^^ n) s) = years ! (n mod 4))) \<and>
         length (intervals s) \<le> 1 \<and>
         (autoPlay s \<longrightarrow>
            intervals (resetAutoPlay doc s) =
              [\<lparr>tid = Suc (nextTimerId s), period = autoPlayInterval s, elapsed = 0\<rparr>] \<and>
            autoPlayTimer (resetAutoPlay doc s) = Some (Suc (nextTimerId s)) \<and>
            (\<forall>n<autoPlayInterval s.
               (tick_ms doc ^^ n) (resetAutoPlay doc s) =
                 (resetAutoPlay doc s)\<lparr>intervals :=
                    [\<lparr>tid = Suc (nextTimerId s), period = autoPlayInterval s, elapsed = n\<rparr>]\<rparr>) \<and>
            (0 < autoPlayInterval s \<longrightarrow>
               currentYear ((tick_ms doc ^^ autoPlayInterval s) (resetAutoPlay doc s)) =
                 currentYear (nextYear doc s))) \<and>
         (\<forall>y. length (intervals (yearButtonClick doc y s)) \<le> 1)"
proof -
  have ok: "timers_ok s" unfolding assms(2) by (rule timers_ok_run[OF assms(1)])
  have A: "\<forall>i<4. currentYear s = years ! i \<longrightarrow>
            nextYear doc s = switchYear doc (years ! ((i + 1) mod 4)) s \<and>
            currentYear (nextYear doc s) = years ! ((i + 1) mod 4)"
    using nextYear_valid[of _ s doc] by (simp add: switchYear_currentYear)
  have B: "currentYear s = ''2000'' \<longrightarrow>
            map (\<lambda>n. currentYear ((nextYear doc ^^ n) s)) [1..<6] =
              [''2010'', ''2020'', ''2050'', ''2000'', ''2010''] \<and>
            (\<forall>n. currentYear ((nextYear doc ^^ n) s) = years ! (n mod 4))"
  proof
    assume c: "currentYear s = ''2000''"
    have "[1..<6] = [1, 2, 3, 4, 5::nat]" by (simp add: upt_rec)
    then have "map (\<lambda>n. currentYear ((nextYear doc ^^ n) s)) [1..<6] =
              [''2010'', ''2020'', ''2050'', ''2000'', ''2010'']"
      by (simp add: nextYear_iter[OF c] years_def del: funpow.simps)
    then show "map (\<lambda>n. currentYear ((nextYear doc ^^ n) s)) [1..<6] =
              [''2010'', ''2020'', ''2050'', ''2000'', ''2010''] \<and>
            (\<forall>n. currentYear ((nextYear doc ^^ n) s) = years ! (n mod 4))"
      using nextYear_iter[OF c] by simp
  qed
  have C: "length (intervals s) \<le> 1" by (rule timers_ok_length[OF ok])
  have D: "autoPlay s \<longrightarrow>
            intervals (resetAutoPlay doc s) =
              [\<lparr>tid = Suc (nextTimerId s), period = autoPlayInterval s, elapsed = 0\<rparr>] \<and>
            autoPlayTimer (resetAutoPlay doc s) = Some (Suc (nextTimerId s)) \<and>
            (\<forall>n<autoPlayInterval s.
               (tick_ms doc ^^ n) (resetAutoPlay doc s) =
                 (resetAutoPlay doc s)\<lparr>intervals :=
                    [\<lparr>tid = Suc (nextTimerId s), period = autoPlayInterval s, elapsed = n\<rparr>]\<rparr>) \<and>
            (0 < autoPlayInterval s \<longrightarrow>
               currentYear ((tick_ms doc ^^ autoPlayInterval s) (resetAutoPlay doc s)) =
                 currentYear (nextYear doc s))"
  proof
    assume a: "autoPlay s"
    let ?t = "\<lparr>tid = Suc (nextTimerId s), period = autoPlayInterval s, elapsed = 0\<rparr>"
    note r = resetAutoPlay_one[OF a ok, of doc]
    have q: "(tick_ms doc ^^ n) (resetAutoPlay doc s) =
                 (resetAutoPlay doc s)\<lparr>intervals :=
                    [\<lparr>tid = Suc (nextTimerId s), period = autoPlayInterval s, elapsed = n\<rparr>]\<rparr>"
      if "n < autoPlayInterval s" for n
      using tick_ms_quiet[OF r(1), of n doc] that by simp
    have f: "currentYear ((tick_ms doc ^^ autoPlayInterval s) (resetAutoPlay doc s)) =
                 currentYear (nextYear doc s)" if "0 < autoPlayInterval s"
      using tick_ms_fires[OF r(1), of doc] that r(3) by (simp add: nextYear_currentYear split: option.splits)
    show "intervals (resetAutoPlay doc s) = [?t] \<and>
            autoPlayTimer (resetAutoPlay doc s) = Some (Suc (nextTimerId s)) \<and>
            (\<forall>n<autoPlayInterval s.
               (tick_ms doc ^^ n) (resetAutoPlay doc s) =
                 (resetAutoPlay doc s)\<lparr>intervals :=
                    [\<lparr>tid = Suc (nextTimerId s), period = autoPlayInterval s, elapsed = n\<rparr>]\<rparr>) \<and>
            (0 < autoPlayInterval s \<longrightarrow>
               currentYear ((tick_ms doc ^^ autoPlayInterval s) (resetAutoPlay doc s)) =
                 currentYear (nextYear doc s))"
      using r(1,2) q f by blast
  qed
  have E: "\<forall>y. length (intervals (yearButtonClick doc y s)) \<le> 1"
  proof
    fix y
    have "timers_ok (ec_step doc s (YearButtonClick y))" by (rule timers_ok_step[OF ok])
    then show "length (intervals (yearButtonClick doc y s)) \<le> 1"
      using timers_ok_length by simp
  qed
  show ?thesis using A B C D E by blast
qed

theorem autoplay_cycle_and_reset_witness:
  "timers_ok (page_earth True) \<and>
   currentYear (nextYear page_doc (page_earth True)) = ''2010'' \<and>
   map (\<lambda>n. currentYear ((nextYear page_doc ^^ n) (page_earth True))) [1..<6] =
     [''2010'', ''2020'', ''2050'', ''2000'', ''2010''] \<and>
   intervals (resetAutoPlay page_doc (page_earth True)) = [\<lparr>tid = 1, period = 5000, elapsed = 0\<rparr>] \<and>
   length (intervals (yearButtonClick page_doc ''2020'' (page_earth True))) \<le> 1"
proof -
  have h: "timers_ok (page_earth True)" by (simp add: timers_ok_def page_earth_def)
  have e: "page_earth True = ec_run page_doc (page_earth True) []" by (simp add: ec_run_def)
  have c: "currentYear (page_earth True) = years ! 0" "currentYear (page_earth True) = ''2000''"
    "autoPlay (page_earth True)" "nextTimerId (page_earth True) = 0"
    "autoPlayInterval (page_earth True) = 5000"
    by (simp_all add: page_earth_def years_def)
  note T = autoplay_cycle_and_reset[OF h e]
  from T have "\<forall>i<4. currentYear (page_earth True) = years ! i \<longrightarrow>
      nextYear page_doc (page_earth True) = switchYear page_doc (years ! ((i + 1) mod 4)) (page_earth True) \<and>
      currentYear (nextYear page_doc (page_earth True)) = years ! ((i + 1) mod 4)"
    by (rule conjunct1)
  from this[rule_format, of 0] c(1)
  have A: "currentYear (nextYear page_doc (page_earth True)) = ''2010''"
    by (simp add: years_def switchYear_currentYear)
  from T c(2) have B: "map (\<lambda>n. currentYear ((nextYear page_doc ^^ n) (page_earth True))) [1..<6] =
     [''2010'', ''2020'', ''2050'', ''2000'', ''2010'']" by blast
  from T c(3) have "intervals (resetAutoPlay page_doc (page_earth True)) =
     [\<lparr>tid = Suc (nextTimerId (page_earth True)), period = autoPlayInterval (page_earth True), elapsed = 0\<rparr>]"
    by blast
  then have D: "intervals (resetAutoPlay page_doc (page_earth True)) = [\<lparr>tid = 1, period = 5000, elapsed = 0\<rparr>]"
    by (simp add: c(4,5))
  from T have E: "length (intervals (yearButtonClick page_doc ''2020'' (page_earth True))) \<le> 1" by blast
  show ?thesis using h A B D E by blast
qed



text \<open>
  Claim C9. In a scope that does not bind the name \<open>True\<close>, as the global scope the
  repository's scripts create, evaluating the alternate build's constructor raises
  \<open>ReferenceError\<close> and yields no controller.
\<close>

theorem constructor_raises_ReferenceError:
  assumes "scope ''True'' = None"
  shows "EarthController_constructor scope = Inl (ReferenceError ''True'') \<and>
         (\<forall>s. EarthController_constructor scope \<noteq> Inr s)"
  using assms by (simp add: EarthController_constructor_def readIdentifier_def)

theorem constructor_raises_ReferenceError_witness:
  "repo_globals ''True'' = None \<and>
   EarthController_constructor repo_globals = Inl (ReferenceError ''True'')"
proof -
  have h: "repo_globals ''True'' = None" by (simp add: repo_globals_def)
  from constructor_raises_ReferenceError[of repo_globals] h show ?thesis by simp
qed

subsection \<open>Pitch clamp and yaw accumulation\<close>

lemma er_move_rotation:
  "currentRotation (er_move x y s) =
     (max (-90) (min 90 (fst (currentRotation s) - (y - snd (er_previousMousePosition s)) * 0.5)),
      snd (currentRotation s) + (x - fst (er_previousMousePosition s)) * 0.5)"
  by (simp add: er_move_def Let_def)

lemma er_move_container: "containerRotation (er_move x y s) = currentRotation (er_move x y s)"
  by (simp add: er_move_def Let_def)

text \<open>The pitch of the portal build's rotation state lies in the clamp interval.\<close>

definition pitch_ok :: "earth_rotation \<Rightarrow> bool" where
  "pitch_ok s = (-90 \<le> fst (currentRotation s) \<and> fst (currentRotation s) \<le> 90)"

lemma pitch_ok_step: "pitch_ok s \<Longrightarrow> pitch_ok (er_step s ev)"
  by (cases ev) (auto simp: pitch_ok_def er_move_rotation)

lemma pitch_ok_run: "pitch_ok s \<Longrightarrow> pitch_ok (er_run s evs)"
  unfolding er_run_def by (induction evs arbitrary: s) (simp_all add: pitch_ok_step)

lemma pitch_ok_init: "pitch_ok er_init"
  by (simp add: pitch_ok_def er_init_def)

lemma yaw_unbounded: "\<exists>evs. M < snd (currentRotation (er_run er_init evs))"
proof -
  have "snd (currentRotation (er_run er_init [ErMouseDown ''CANVAS'' 0 0, ErMouseMove (2 * \<bar>M\<bar> + 2) 0])) = \<bar>M\<bar> + 1"
    by (simp add: er_run_def er_init_def er_move_rotation)
  moreover have "M < \<bar>M\<bar> + 1" by simp
  ultimately have "M < snd (currentRotation (er_run er_init [ErMouseDown ''CANVAS'' 0 0, ErMouseMove (2 * \<bar>M\<bar> + 2) 0]))"
    by simp
  then show ?thesis ..
qed

lemma dragMove_rotation:
  "globeRotation (dragMove x y now g) =
     (fst (globeRotation g) - (y - snd (previousMousePosition g)) * rotationSpeed,
      snd (globeRotation g) + (x - fst (previousMousePosition g)) * rotationSpeed)"
  by (simp add: dragMove_def Let_def rotateHotspots_def rotateSpheres_def)

text \<open>
  Claim C6, as the code has it. In \<open>setupEarthRotation\<close> (portal build), after any
  sequence of pointer events from the initial state the pitch lies in \<open>[-90, 90]\<close>; a
  move during a drag that would take the pitch to 90 or beyond leaves it at exactly 90
  (and at exactly -90 at the other end); the same move adds half the horizontal delta to
  the yaw whatever happens to the pitch; the yaw exceeds every bound for a suitable drag;
  and the container's rotation attribute is the rotation state. In \<open>setupGlobeRotation\<close>
  (alternate build) neither axis is clamped: a move during a drag adds half the negated
  vertical delta to the pitch and half the horizontal delta to the yaw.
\<close>

theorem rotation_clamp_and_yaw:
  "pitch_ok (er_run er_init evs) \<and>
   (er_isDragging s \<and> 90 \<le> fst (currentRotation s) - (y - snd (er_previousMousePosition s)) * 0.5 \<longrightarrow>
      fst (currentRotation (er_step s (ErMouseMove x y))) = 90) \<and>
   (er_isDragging s \<and> fst (currentRotation s) - (y - snd (er_previousMousePosition s)) * 0.5 \<le> -90 \<longrightarrow>
      fst (currentRotation (er_step s (ErMouseMove x y))) = -90) \<and>
   (er_isDragging s \<longrightarrow>
      snd (currentRotation (er_step s (ErMouseMove x y))) =
        snd (currentRotation s) + (x - fst (er_previousMousePosition s)) * 0.5 \<and>
      containerRotation (er_step s (ErMouseMove x y)) = currentRotation (er_step s (ErMouseMove x y))) \<and>
   (\<forall>M. \<exists>evs'. M < snd (currentRotation (er_run er_init evs')) \<and> pitch_ok (er_run er_init evs')) \<and>
   (isDragging g \<longrightarrow>
      globeRotation (mousemove x y now g) =
        (fst (globeRotation g) - (y - snd (previousMousePosition g)) * rotationSpeed,
         snd (globeRotation g) + (x - fst (previousMousePosition g)) * rotationSpeed))"
proof -
  have A: "pitch_ok (er_run er_init evs)" by (rule pitch_ok_run[OF pitch_ok_init])
  have B: "er_isDragging s \<and> 90 \<le> fst (currentRotation s) - (y - snd (er_previousMousePosition s)) * 0.5 \<longrightarrow>
      fst (currentRotation (er_step s (ErMouseMove x y))) = 90"
    by (simp add: er_move_rotation)
  have C: "er_isDragging s \<and> fst (currentRotation s) - (y - snd (er_previousMousePosition s)) * 0.5 \<le> -90 \<longrightarrow>
      fst (currentRotation (er_step s (ErMouseMove x y))) = -90"
    by (simp add: er_move_rotation)
  have D: "er_isDragging s \<longrightarrow>
      snd (currentRotation (er_step s (ErMouseMove x y))) =
        snd (currentRotation s) + (x - fst (er_previousMousePosition s)) * 0.5 \<and>
      containerRotation (er_step s (ErMouseMove x y)) = currentRotation (er_step s (ErMouseMove x y))"
    by (simp add: er_move_rotation er_move_container)
  have E: "\<forall>M. \<exists>evs'. M < snd (currentRotation (er_run er_init evs')) \<and> pitch_ok (er_run er_init evs')"
    using yaw_unbounded pitch_ok_run[OF pitch_ok_init] by blast
  have F: "isDragging g \<longrightarrow>
      globeRotation (mousemove x y now g) =
        (fst (globeRotation g) - (y - snd (previousMousePosition g)) * rotationSpeed,
         snd (globeRotation g) + (x - fst (previousMousePosition g)) * rotationSpeed)"
    by (simp add: mousemove_def dragMove_rotation)
  show ?thesis using A B C D E F by blast
qed

theorem rotation_clamp_and_yaw_witness:
  "er_isDragging (er_run er_init [ErMouseDown ''CANVAS'' 0 0]) \<and>
   fst (currentRotation (er_run er_init [ErMouseDown ''CANVAS'' 0 0, ErMouseMove 1440 (-400)])) = 90 \<and>
   snd (currentRotation (er_run er_init [ErMouseDown ''CANVAS'' 0 0, ErMouseMove 1440 (-400)])) = 720 \<and>
   pitch_ok (er_run er_init [ErMouseDown ''CANVAS'' 0 0, ErMouseMove 1440 (-400)]) \<and>
   isDragging drag_example \<and>
   globeRotation (mousemove 0 (-200) 10 drag_example) = (100, 0)"
proof -
  let ?s = "er_run er_init [ErMouseDown ''CANVAS'' 0 0]"
  have h: "er_isDragging ?s" "fst (currentRotation ?s) = 0" "snd (currentRotation ?s) = 0"
    "er_previousMousePosition ?s = (0, 0)"
    "isDragging drag_example" "globeRotation drag_example = (0, 0)"
    "previousMousePosition drag_example = (0, 0)"
    by (simp_all add: er_run_def er_init_def drag_example_def page_earth_def)
  have r: "er_run er_init [ErMouseDown ''CANVAS'' 0 0, ErMouseMove 1440 (-400)] =
           er_step ?s (ErMouseMove 1440 (-400))"
    by (simp add: er_run_def)
  note T = rotation_clamp_and_yaw[where evs = "[ErMouseDown ''CANVAS'' 0 0, ErMouseMove 1440 (-400)]"
      and s = ?s and x = 1440 and y = "-400"]
  note T2 = rotation_clamp_and_yaw[where g = drag_example and x = 0 and y = "-200" and now = 10]
  have p: "(90::real) \<le> fst (currentRotation ?s) - (-400 - snd (er_previousMousePosition ?s)) * 0.5"
    by (simp add: h)
  from T h(1) p have A: "fst (currentRotation (er_step ?s (ErMouseMove 1440 (-400)))) = 90" by blast
  from T h(1) have "snd (currentRotation (er_step ?s (ErMouseMove 1440 (-400)))) =
        snd (currentRotation ?s) + (1440 - fst (er_previousMousePosition ?s)) * 0.5" by blast
  then have B: "snd (currentRotation (er_step ?s (ErMouseMove 1440 (-400)))) = 720" by (simp add: h)
  from T have C: "pitch_ok (er_run er_init [ErMouseDown ''CANVAS'' 0 0, ErMouseMove 1440 (-400)])" by blast
  from T2 h(5) have "globeRotation (mousemove 0 (-200) 10 drag_example) =
        (fst (globeRotation drag_example) - (-200 - snd (previousMousePosition drag_example)) * rotationSpeed,
         snd (globeRotation drag_example) + (0 - fst (previousMousePosition drag_example)) * rotationSpeed)"
    by blast
  then have D: "globeRotation (mousemove 0 (-200) 10 drag_example) = (100, 0)"
    by (simp add: h rotationSpeed_def)
  show ?thesis unfolding r using h(1,5) A B C D unfolding r by blast
qed

text \<open>
  Claim C6 as stated fails in the alternate build: a drag 200 pixels upwards takes the
  pitch of the globe to 100 degrees.
\<close>

theorem globe_pitch_exceeds_90:
  "fst (globeRotation (ec_run page_doc (page_earth False)
          [MouseDown False 0 0 0, MouseMove 0 (-200) 10])) = 100 \<and>
   \<not> fst (globeRotation (ec_run page_doc (page_earth False)
          [MouseDown False 0 0 0, MouseMove 0 (-200) 10])) \<le> 90"
proof -
  have d: "isDragging (mousedown False 0 0 0 (page_earth False))"
    "globeRotation (mousedown False 0 0 0 (page_earth False)) = (0, 0)"
    "previousMousePosition (mousedown False 0 0 0 (page_earth False)) = (0, 0)"
    by (simp_all add: mousedown_def dragStart_def page_earth_def Let_def)
  have "globeRotation (ec_run page_doc (page_earth False)
          [MouseDown False 0 0 0, MouseMove 0 (-200) 10]) = (100, 0)"
    using d by (simp add: ec_run_def mousemove_def dragMove_rotation rotationSpeed_def)
  then show ?thesis by simp
qed

subsection \<open>The guard is kept by every segment\<close>

text \<open>
  No segment touches the guard: whether a segment ends at its next \<open>await\<close> or with a
  throw, the state it leaves has the suspended activations and the flag it started with.
\<close>

definition guardOf :: "scene_manager \<Rightarrow> (string \<times> phase) list \<times> bool" where
  "guardOf s = (suspended s, isTransitioning s)"

definition keeps :: "scene_manager \<Rightarrow> sm_result \<Rightarrow> bool" where
  "keeps s r = (case r of Inl e \<Rightarrow> guardOf (snd e) = guardOf s | Inr s' \<Rightarrow> guardOf s' = guardOf s)"

lemma keeps_perform:
  assumes "\<And>s. guardOf (f s) = guardOf s"
  shows "keeps s (perform env c f s)"
  using assms by (simp add: keeps_def perform_def guardOf_def)

lemma keeps_andThen:
  assumes "keeps s r" "\<And>s'. guardOf s' = guardOf s \<Longrightarrow> keeps s' (f s')"
  shows "keeps s (andThen r f)"
proof (cases r)
  case (Inl e)
  with assms(1) show ?thesis by (simp add: keeps_def andThen_def)
next
  case (Inr s1)
  with assms(1) have g: "guardOf s1 = guardOf s" by (simp add: keeps_def)
  from assms(2)[OF g] have "keeps s1 (f s1)" .
  with g Inr show ?thesis by (cases "f s1") (simp_all add: keeps_def andThen_def)
qed

lemma keeps_whenPresent:
  assumes "keeps s (f s)"
  shows "keeps s (whenPresent b f s)"
  using assms by (auto simp: keeps_def whenPresent_def)

lemma keeps_Inr: "guardOf s' = guardOf s \<Longrightarrow> keeps s (Inr s')"
  by (simp add: keeps_def)

lemma guard_fields [simp]:
  "suspended (hideScene y s) = suspended s" "isTransitioning (hideScene y s) = isTransitioning s"
  "suspended (showScene y s) = suspended s" "isTransitioning (showScene y s) = isTransitioning s"
  "suspended (overlayFadeOut s) = suspended s" "isTransitioning (overlayFadeOut s) = isTransitioning s"
  "suspended (overlayFadeIn s) = suspended s" "isTransitioning (overlayFadeIn s) = isTransitioning s"
  "suspended (overlayFadeInDone s) = suspended s" "isTransitioning (overlayFadeInDone s) = isTransitioning s"
  "suspended (logc m s) = suspended s" "isTransitioning (logc m s) = isTransitioning s"
  by (auto simp: hideScene_def showScene_def overlayFadeOut_def overlayFadeIn_def overlayFadeInDone_def logc_def
      split: option.splits)

lemma guardOf_simps [simp]:
  "guardOf (hideScene y s) = guardOf s" "guardOf (showScene y s) = guardOf s" "guardOf (overlayFadeOut s) = guardOf s"
  "guardOf (overlayFadeIn s) = guardOf s" "guardOf (overlayFadeInDone s) = guardOf s" "guardOf (logc m s) = guardOf s"
  "guardOf (s\<lparr>calls := cs\<rparr>) = guardOf s" "guardOf (s\<lparr>currentScene := y\<rparr>) = guardOf s" "guardOf (id s) = guardOf s"
  by (simp_all add: guardOf_def)

lemma keeps_begin: "keeps s (seg_begin env s)"
  unfolding seg_begin_def by (rule keeps_perform) simp

lemma keeps_afterDelay: "keeps s (seg_afterDelay env s)"
  unfolding seg_afterDelay_def by (rule keeps_perform) simp

lemma keeps_afterFadeIn: "keeps s (seg_afterFadeIn env y s)"
  unfolding seg_afterFadeIn_def
  by (intro keeps_andThen keeps_whenPresent keeps_perform) (simp_all add: keeps_perform)

lemma keeps_afterFadeOut: "keeps s (seg_afterFadeOut env y s)"
  unfolding seg_afterFadeOut_def
  by (intro keeps_andThen keeps_whenPresent keeps_perform keeps_Inr) (simp_all add: keeps_perform)


lemma guard_inv_await:
  assumes "keeps s r" "isTransitioning s" "suspended s = []"
  shows "guard_inv (await y ph r)"
  using assms
  by (cases r) (auto simp: keeps_def guardOf_def await_def catchFinally_def logc_def guard_inv_def)

lemma guard_inv_complete:
  assumes "keeps s r" "suspended s = []"
  shows "guard_inv (tryEnd y r)"
  using assms
  by (cases r) (auto simp: keeps_def guardOf_def tryEnd_def catchFinally_def logc_def guard_inv_def)

lemma switchScene_busy:
  "isTransitioning s \<Longrightarrow> switchScene env y s = s\<lparr>console := console s @ [WarnTransitionInProgress]\<rparr>"
  by (simp add: switchScene_def logc_def)

lemma guard_inv_switchScene: "guard_inv s \<Longrightarrow> guard_inv (switchScene env y s)"
proof -
  assume g: "guard_inv s"
  show ?thesis
  proof (cases "isTransitioning s \<or> scenes env y = None \<or> currentScene s = y")
    case True
    with g show ?thesis by (auto simp: switchScene_def logc_def guard_inv_def)
  next
    case False
    let ?s1 = "(logc (LogTransitioning (currentScene s) y) s)\<lparr>isTransitioning := True\<rparr>"
    from False g have "suspended ?s1 = []" "isTransitioning ?s1" by (auto simp: guard_inv_def)
    from guard_inv_await[OF keeps_begin this(2,1)] False show ?thesis
      by (auto simp add: switchScene_def)
  qed
qed

lemma guard_inv_resume: "guard_inv s \<Longrightarrow> guard_inv (resume env k s)"
proof -
  assume g: "guard_inv s"
  show ?thesis
  proof (cases "k < length (suspended s)")
    case False
    with g show ?thesis by (simp add: resume_def)
  next
    case True
    with g obtain y ph where sus: "suspended s = [(y, ph)]" and k: "k = 0" and tr: "isTransitioning s"
      by (cases "suspended s") (auto simp: guard_inv_def)
    let ?s1 = "s\<lparr>suspended := []\<rparr>"
    have a: "isTransitioning ?s1" "suspended ?s1 = []" using tr by simp_all
    have b: "suspended (overlayFadeInDone ?s1) = []" by simp
    show ?thesis
      using sus k guard_inv_await[OF keeps_afterFadeOut a, of y AwaitDelay env y]
        guard_inv_await[OF keeps_afterDelay a, of y AwaitFadeIn env]
        guard_inv_complete[OF keeps_afterFadeIn b, of y env y]
      by (cases ph) (simp_all add: resume_def)
  qed
qed

lemma guard_inv_step: "guard_inv s \<Longrightarrow> guard_inv (sm_step env s ev)"
  by (cases ev) (simp_all add: guard_inv_switchScene guard_inv_resume)

lemma guard_inv_run: "guard_inv s \<Longrightarrow> guard_inv (sm_run env s evs)"
  unfolding sm_run_def by (induction evs arbitrary: s) (simp_all add: guard_inv_step)

lemma guard_inv_run_in: "guard_inv s \<Longrightarrow> guard_inv (sm_run_in s evs)"
  unfolding sm_run_in_def by (induction evs arbitrary: s) (simp_all add: guard_inv_step)


lemma helper_fields [simp]:
  "calls (hideScene y s) = calls s" "currentScene (hideScene y s) = currentScene s"
  "calls (showScene y s) = calls s" "currentScene (showScene y s) = currentScene s"
  "calls (overlayFadeOut s) = calls s" "currentScene (overlayFadeOut s) = currentScene s"
  "calls (overlayFadeIn s) = calls s" "currentScene (overlayFadeIn s) = currentScene s"
  "calls (overlayFadeInDone s) = calls s" "currentScene (overlayFadeInDone s) = currentScene s"
  "calls (logc m s) = calls s" "currentScene (logc m s) = currentScene s"
  by (auto simp: hideScene_def showScene_def overlayFadeOut_def overlayFadeIn_def overlayFadeInDone_def logc_def
      split: option.splits)












subsection \<open>Outcome of a segment when calls may throw\<close>

text \<open>
  What a segment does when calls may throw, in terms of the list \<open>cs\<close> of calls it would
  make if none threw. The calls made are the longest prefix of \<open>cs\<close> without a throwing
  call; the segment ends normally when that prefix is all of \<open>cs\<close>, and otherwise throws
  at the call that follows the prefix. The assignment to \<open>currentScene\<close> cannot throw, and
  the current scene is the one last assigned among the calls made.
\<close>

fun noThrow :: "sm_env \<Rightarrow> sm_call \<Rightarrow> bool" where
  "noThrow env (Commit y) = True"
| "noThrow env c = (\<not> throws env c)"

fun commitOf :: "string \<Rightarrow> sm_call \<Rightarrow> string" where
  "commitOf y (Commit b) = b"
| "commitOf y c = y"

definition lastCommit :: "string \<Rightarrow> sm_call list \<Rightarrow> string" where
  "lastCommit y cs = foldl commitOf y cs"

definition progress :: "scene_manager \<Rightarrow> scene_manager \<Rightarrow> sm_call list \<Rightarrow> bool" where
  "progress s s' ex = (calls s' = calls s @ ex \<and> guardOf s' = guardOf s \<and> currentScene s' = lastCommit (currentScene s) ex)"

definition outcome :: "sm_env \<Rightarrow> scene_manager \<Rightarrow> sm_call list \<Rightarrow> sm_result \<Rightarrow> bool" where
  "outcome env s cs r =
     (case r of
        Inr s' \<Rightarrow> takeWhile (noThrow env) cs = cs \<and> progress s s' cs
      | Inl e \<Rightarrow> takeWhile (noThrow env) cs \<noteq> cs \<and> fst e = cs ! length (takeWhile (noThrow env) cs)
                 \<and> progress s (snd e) (takeWhile (noThrow env) cs))"

lemma progress_refl: "progress s s []"
  by (simp add: progress_def lastCommit_def)

lemma progress_trans: "progress s s1 a \<Longrightarrow> progress s1 s2 b \<Longrightarrow> progress s s2 (a @ b)"
  by (simp add: progress_def lastCommit_def)

lemma takeWhile_all: "(takeWhile P xs = xs) = (\<forall>x\<in>set xs. P x)"
  by (rule takeWhile_eq_all_conv)

lemma outcome_nil: "outcome env s [] (Inr s)"
  by (simp add: outcome_def progress_refl)

lemma outcome_perform:
  assumes "\<And>y. c \<noteq> Commit y" "\<And>s. calls (f s) = calls s" "\<And>s. guardOf (f s) = guardOf s" "\<And>s. currentScene (f s) = currentScene s"
  shows "outcome env s [c] (perform env c f s)"
proof -
  have n: "noThrow env c = (\<not> throws env c)" using assms(1) by (cases c) auto
  have l: "lastCommit y [c] = y" for y using assms(1) by (cases c) (auto simp: lastCommit_def)
  show ?thesis using assms(2-4) n l
    by (auto simp: outcome_def perform_def progress_def guardOf_def lastCommit_def)
qed

lemma outcome_commit:
  "outcome env s [Commit B] (Inr (s\<lparr>currentScene := B, calls := calls s @ [Commit B]\<rparr>))"
  by (simp add: outcome_def progress_def guardOf_def lastCommit_def)

lemma outcome_andThen:
  assumes "outcome env s cs1 r" "\<And>s'. progress s s' cs1 \<Longrightarrow> outcome env s' cs2 (f s')"
  shows "outcome env s (cs1 @ cs2) (andThen r f)"
proof (cases r)
  case (Inl e)
  with assms(1) have ne: "takeWhile (noThrow env) cs1 \<noteq> cs1" and
    rest: "fst e = cs1 ! length (takeWhile (noThrow env) cs1)" "progress s (snd e) (takeWhile (noThrow env) cs1)"
    by (simp_all add: outcome_def)
  from ne obtain x where x: "x \<in> set cs1" "\<not> noThrow env x" by (auto simp: takeWhile_all)
  then have tw: "takeWhile (noThrow env) (cs1 @ cs2) = takeWhile (noThrow env) cs1"
    by (simp add: takeWhile_append1)
  have len: "length (takeWhile (noThrow env) cs1) < length cs1"
    using ne by (metis length_takeWhile_le le_neq_implies_less takeWhile_eq_take take_all_iff order_refl)
  have "\<not> (\<forall>y\<in>set (cs1 @ cs2). noThrow env y)" using x by auto
  then have neq: "takeWhile (noThrow env) (cs1 @ cs2) \<noteq> cs1 @ cs2"
    by (simp only: takeWhile_eq_all_conv not_False_eq_True)
  show ?thesis unfolding outcome_def andThen_def Inl
    using neq rest len by (simp add: tw nth_append del: takeWhile_eq_all_conv)
next
  case (Inr s1)
  with assms(1) have all: "takeWhile (noThrow env) cs1 = cs1" and p: "progress s s1 cs1"
    by (simp_all add: outcome_def)
  from all have a: "\<forall>x\<in>set cs1. noThrow env x" by (simp add: takeWhile_all)
  then have tw: "takeWhile (noThrow env) (cs1 @ cs2) = cs1 @ takeWhile (noThrow env) cs2"
    by (simp add: takeWhile_append2)
  from assms(2)[OF p] have o: "outcome env s1 cs2 (f s1)" .
  show ?thesis
  proof (cases "f s1")
    case (Inl e)
    with o Inr p tw show ?thesis
      by (auto simp: outcome_def andThen_def nth_append progress_trans)
  next
    case (Inr s2)
    with o \<open>r = Inr s1\<close> p tw show ?thesis
      by (auto simp: outcome_def andThen_def progress_trans)
  qed
qed

lemma outcome_whenPresent:
  assumes "outcome env s cs (f s)"
  shows "outcome env s (if b then cs else []) (whenPresent b f s)"
  using assms by (simp add: whenPresent_def outcome_nil)


lemma outcome_begin: "outcome env s [FadeOut] (seg_begin env s)"
  unfolding seg_begin_def by (rule outcome_perform) simp_all

lemma outcome_afterDelay: "outcome env s [FadeIn] (seg_afterDelay env s)"
  unfolding seg_afterDelay_def by (rule outcome_perform) simp_all

lemma outcome_afterFadeIn:
  "outcome env s ((if audioController env then [PlaySceneAudio B] else []) @
                  (if animationController env then [UpdateWaterLevel B] else []))
     (seg_afterFadeIn env B s)"
  unfolding seg_afterFadeIn_def
  by (rule outcome_andThen; rule outcome_whenPresent; rule outcome_perform) simp_all

text \<open>The calls of the second segment after \<open>hideScene\<close>.\<close>

definition afterHide :: "sm_env \<Rightarrow> string \<Rightarrow> sm_call list" where
  "afterHide env B = [Commit B] @ [ShowScene B] @
     (if uiManager env then [UpdateSceneInfo B] @ [StartSubtitles B] else []) @
     (if audioController env then [PlayTransition] else []) @ [Delay 300]"

lemma outcome_afterHide:
  "outcome env s (afterHide env B)
     (andThen (Inr (s\<lparr>currentScene := B, calls := calls s @ [Commit B]\<rparr>)) (\<lambda>s.
      andThen (perform env (ShowScene B) (showScene B) s) (\<lambda>s.
      andThen (whenPresent (uiManager env)
                (\<lambda>s. andThen (perform env (UpdateSceneInfo B) id s)
                               (perform env (StartSubtitles B) id)) s) (\<lambda>s.
      andThen (whenPresent (audioController env) (perform env PlayTransition id) s) (\<lambda>s.
      perform env (Delay 300) id s)))))"
  unfolding afterHide_def
  apply (rule outcome_andThen[OF outcome_commit])
  apply (rule outcome_andThen)
   apply (rule outcome_perform; simp)
  apply (rule outcome_andThen)
   apply (rule outcome_whenPresent)
   apply (rule outcome_andThen)
    apply (rule outcome_perform; simp)
   apply (rule outcome_perform; simp)
  apply (rule outcome_andThen)
   apply (rule outcome_whenPresent)
   apply (rule outcome_perform; simp)
  apply (rule outcome_perform; simp)
  done

lemma outcome_afterFadeOut:
  "outcome env s ((if audioController env then [StopSceneAudio (currentScene s)] else []) @
                  [HideScene (currentScene s)] @ afterHide env B)
     (seg_afterFadeOut env B s)"
  unfolding seg_afterFadeOut_def
proof (rule outcome_andThen)
  show "outcome env s (if audioController env then [StopSceneAudio (currentScene s)] else [])
     (whenPresent (audioController env) (\<lambda>s. perform env (StopSceneAudio (currentScene s)) id s) s)"
    by (rule outcome_whenPresent, rule outcome_perform) simp_all
next
  fix s1
  assume "progress s s1 (if audioController env then [StopSceneAudio (currentScene s)] else [])"
  then have c: "currentScene s1 = currentScene s" by (auto simp: progress_def lastCommit_def split: if_splits)
  show "outcome env s1 ([HideScene (currentScene s)] @ afterHide env B)
          (andThen (perform env (HideScene (currentScene s1)) (hideScene (currentScene s1)) s1) (\<lambda>s.
      andThen (Inr (s\<lparr>currentScene := B, calls := calls s @ [Commit B]\<rparr>)) (\<lambda>s.
      andThen (perform env (ShowScene B) (showScene B) s) (\<lambda>s.
      andThen (whenPresent (uiManager env)
                (\<lambda>s. andThen (perform env (UpdateSceneInfo B) id s)
                               (perform env (StartSubtitles B) id)) s) (\<lambda>s.
      andThen (whenPresent (audioController env) (perform env PlayTransition id) s) (\<lambda>s.
      perform env (Delay 300) id s))))))"
    unfolding c
    by (rule outcome_andThen, (rule outcome_perform; simp), rule outcome_afterHide)
qed


text \<open>
  The states of one transition, relative to the state \<open>s\<close> it started from and the calls
  \<open>done\<close> its segments so far would make if none threw: still suspended (\<open>alive\<close>),
  ended by a throw (\<open>dead\<close>: guard clear, the calls before the first throwing one made,
  its error logged last), or run to the end (\<open>finished\<close>).
\<close>

definition alive :: "scene_manager \<Rightarrow> scene_manager \<Rightarrow> string \<Rightarrow> phase \<Rightarrow> sm_call list \<Rightarrow> bool" where
  "alive s s' B ph done = (suspended s' = [(B, ph)] \<and> isTransitioning s' \<and> calls s' = calls s @ done \<and>
     currentScene s' = lastCommit (currentScene s) done)"

definition dead :: "sm_env \<Rightarrow> scene_manager \<Rightarrow> scene_manager \<Rightarrow> sm_call list \<Rightarrow> bool" where
  "dead env s s' done = (suspended s' = [] \<and> \<not> isTransitioning s' \<and>
     calls s' = calls s @ takeWhile (noThrow env) done \<and>
     currentScene s' = lastCommit (currentScene s) (takeWhile (noThrow env) done) \<and>
     console s' \<noteq> [] \<and> last (console s') = ErrorTransition (done ! length (takeWhile (noThrow env) done)) \<and>
     takeWhile (noThrow env) done \<noteq> done)"

definition finished :: "scene_manager \<Rightarrow> scene_manager \<Rightarrow> string \<Rightarrow> sm_call list \<Rightarrow> bool" where
  "finished s s' B done = (suspended s' = [] \<and> \<not> isTransitioning s' \<and> calls s' = calls s @ done \<and>
     currentScene s' = lastCommit (currentScene s) done \<and>
     console s' \<noteq> [] \<and> last (console s') = LogTransitionComplete B)"

lemma dead_extend:
  assumes "dead env s s' done"
  shows "dead env s s' (done @ cs)"
proof -
  from assms have ne: "takeWhile (noThrow env) done \<noteq> done" by (simp add: dead_def)
  then obtain x where x: "x \<in> set done" "\<not> noThrow env x" by (auto simp: takeWhile_eq_all_conv)
  then have tw: "takeWhile (noThrow env) (done @ cs) = takeWhile (noThrow env) done"
    by (simp add: takeWhile_append1)
  have len: "length (takeWhile (noThrow env) done) < length done"
    using ne by (metis length_takeWhile_le le_neq_implies_less takeWhile_eq_take take_all_iff order_refl)
  have "\<not> (\<forall>y\<in>set (done @ cs). noThrow env y)" using x by auto
  then have neq: "takeWhile (noThrow env) (done @ cs) \<noteq> done @ cs"
    by (simp only: takeWhile_eq_all_conv not_False_eq_True)
  show ?thesis using assms neq len unfolding dead_def tw by (simp add: nth_append del: takeWhile_eq_all_conv)
qed

lemma await_stage:
  assumes o: "outcome env s1 cs r"
    and g: "suspended s1 = []" "isTransitioning s1"
    and c: "calls s1 = calls s @ done" "currentScene s1 = lastCommit (currentScene s) done"
    and ok: "takeWhile (noThrow env) done = done"
  shows "if takeWhile (noThrow env) (done @ cs) = done @ cs
         then alive s (await B ph r) B ph (done @ cs)
         else dead env s (await B ph r) (done @ cs)"
proof -
  from ok have a: "\<forall>x\<in>set done. noThrow env x" by (simp add: takeWhile_eq_all_conv)
  then have tw: "takeWhile (noThrow env) (done @ cs) = done @ takeWhile (noThrow env) cs"
    by (simp add: takeWhile_append2)
  show ?thesis
  proof (cases r)
    case (Inl e)
    with o have ne: "takeWhile (noThrow env) cs \<noteq> cs" and
      rest: "fst e = cs ! length (takeWhile (noThrow env) cs)" "progress s1 (snd e) (takeWhile (noThrow env) cs)"
      by (simp_all add: outcome_def)
    obtain c' s' where e: "e = (c', s')" by (cases e)
    have neq: "takeWhile (noThrow env) (done @ cs) \<noteq> done @ cs" using ne tw by simp
    show ?thesis using neq rest g c e Inl
      by (simp add: tw dead_def await_def catchFinally_def logc_def progress_def guardOf_def lastCommit_def nth_append
          del: takeWhile_eq_all_conv)
  next
    case (Inr s')
    with o have all: "takeWhile (noThrow env) cs = cs" and p: "progress s1 s' cs"
      by (simp_all add: outcome_def)
    show ?thesis using all p g c Inr
      by (simp add: tw alive_def await_def progress_def guardOf_def lastCommit_def del: takeWhile_eq_all_conv)
  qed
qed

lemma complete_stage:
  assumes o: "outcome env s1 cs r"
    and g: "suspended s1 = []"
    and c: "calls s1 = calls s @ done" "currentScene s1 = lastCommit (currentScene s) done"
    and ok: "takeWhile (noThrow env) done = done"
  shows "if takeWhile (noThrow env) (done @ cs) = done @ cs
         then finished s (tryEnd B r) B (done @ cs)
         else dead env s (tryEnd B r) (done @ cs)"
proof -
  from ok have a: "\<forall>x\<in>set done. noThrow env x" by (simp add: takeWhile_eq_all_conv)
  then have tw: "takeWhile (noThrow env) (done @ cs) = done @ takeWhile (noThrow env) cs"
    by (simp add: takeWhile_append2)
  show ?thesis
  proof (cases r)
    case (Inl e)
    with o have ne: "takeWhile (noThrow env) cs \<noteq> cs" and
      rest: "fst e = cs ! length (takeWhile (noThrow env) cs)" "progress s1 (snd e) (takeWhile (noThrow env) cs)"
      by (simp_all add: outcome_def)
    obtain c' s' where e: "e = (c', s')" by (cases e)
    have neq: "takeWhile (noThrow env) (done @ cs) \<noteq> done @ cs" using ne tw by simp
    show ?thesis using neq rest g c e Inl
      by (simp add: tw dead_def tryEnd_def catchFinally_def logc_def progress_def guardOf_def lastCommit_def nth_append
          del: takeWhile_eq_all_conv)
  next
    case (Inr s')
    with o have all: "takeWhile (noThrow env) cs = cs" and p: "progress s1 s' cs"
      by (simp_all add: outcome_def)
    show ?thesis using all p g c Inr
      by (simp add: tw finished_def tryEnd_def logc_def progress_def guardOf_def lastCommit_def del: takeWhile_eq_all_conv)
  qed
qed


definition stage :: "sm_env \<Rightarrow> scene_manager \<Rightarrow> scene_manager \<Rightarrow> string \<Rightarrow> phase \<Rightarrow> sm_call list \<Rightarrow> bool" where
  "stage env s s' B ph done =
     (if takeWhile (noThrow env) done = done then alive s s' B ph done else dead env s s' done)"

definition final :: "sm_env \<Rightarrow> scene_manager \<Rightarrow> scene_manager \<Rightarrow> string \<Rightarrow> sm_call list \<Rightarrow> bool" where
  "final env s s' B done =
     (if takeWhile (noThrow env) done = done then finished s s' B done else dead env s s' done)"

lemma resume_dead: "dead env s s' done \<Longrightarrow> resume env k s' = s'"
  by (simp add: dead_def resume_def)

lemma stage_begin:
  assumes "\<not> isTransitioning s" "suspended s = []" "scenes env B \<noteq> None" "currentScene s \<noteq> B"
  shows "stage env s (switchScene env B s) B AwaitFadeOut [FadeOut]"
proof -
  let ?s1 = "(logc (LogTransitioning (currentScene s) B) s)\<lparr>isTransitioning := True\<rparr>"
  have sw: "switchScene env B s = await B AwaitFadeOut (seg_begin env ?s1)"
    using assms by (auto simp: switchScene_def)
  have "if takeWhile (noThrow env) ([] @ [FadeOut]) = [] @ [FadeOut]
         then alive s (await B AwaitFadeOut (seg_begin env ?s1)) B AwaitFadeOut ([] @ [FadeOut])
         else dead env s (await B AwaitFadeOut (seg_begin env ?s1)) ([] @ [FadeOut])"
    by (rule await_stage[OF outcome_begin]) (simp_all add: assms lastCommit_def)
  then show ?thesis unfolding stage_def sw append_Nil .
qed

lemma stage_afterFadeOut:
  assumes st: "stage env s s1 B AwaitFadeOut done" and nc: "lastCommit (currentScene s) done = A"
  shows "stage env s (resume env 0 s1) B AwaitDelay
           (done @ ((if audioController env then [StopSceneAudio A] else []) @ [HideScene A] @ afterHide env B))"
proof (cases "takeWhile (noThrow env) done = done")
  case False
  with st have d: "dead env s s1 done" by (simp add: stage_def)
  from dead_extend[OF d] resume_dead[OF d] show ?thesis
    by (simp add: stage_def dead_def del: takeWhile_eq_all_conv)
next
  case True
  with st have a: "alive s s1 B AwaitFadeOut done" by (simp add: stage_def)
  let ?s1 = "s1\<lparr>suspended := []\<rparr>"
  have r: "resume env 0 s1 = await B AwaitDelay (seg_afterFadeOut env B ?s1)"
    using a by (simp add: resume_def alive_def)
  have cur: "currentScene ?s1 = A" using a nc by (simp add: alive_def)
  have "if takeWhile (noThrow env) (done @ ((if audioController env then [StopSceneAudio (currentScene ?s1)] else []) @ [HideScene (currentScene ?s1)] @ afterHide env B))
          = done @ ((if audioController env then [StopSceneAudio (currentScene ?s1)] else []) @ [HideScene (currentScene ?s1)] @ afterHide env B)
        then alive s (await B AwaitDelay (seg_afterFadeOut env B ?s1)) B AwaitDelay
               (done @ ((if audioController env then [StopSceneAudio (currentScene ?s1)] else []) @ [HideScene (currentScene ?s1)] @ afterHide env B))
        else dead env s (await B AwaitDelay (seg_afterFadeOut env B ?s1))
               (done @ ((if audioController env then [StopSceneAudio (currentScene ?s1)] else []) @ [HideScene (currentScene ?s1)] @ afterHide env B))"
    using a True by (intro await_stage[OF outcome_afterFadeOut]) (simp_all add: alive_def)
  then show ?thesis unfolding stage_def r cur .
qed

lemma stage_afterDelay:
  assumes st: "stage env s s1 B AwaitDelay done"
  shows "stage env s (resume env 0 s1) B AwaitFadeIn (done @ [FadeIn])"
proof (cases "takeWhile (noThrow env) done = done")
  case False
  with st have d: "dead env s s1 done" by (simp add: stage_def)
  from dead_extend[OF d] resume_dead[OF d] show ?thesis
    by (simp add: stage_def dead_def del: takeWhile_eq_all_conv)
next
  case True
  with st have a: "alive s s1 B AwaitDelay done" by (simp add: stage_def)
  let ?s1 = "s1\<lparr>suspended := []\<rparr>"
  have r: "resume env 0 s1 = await B AwaitFadeIn (seg_afterDelay env ?s1)"
    using a by (simp add: resume_def alive_def)
  have "if takeWhile (noThrow env) (done @ [FadeIn]) = done @ [FadeIn]
        then alive s (await B AwaitFadeIn (seg_afterDelay env ?s1)) B AwaitFadeIn (done @ [FadeIn])
        else dead env s (await B AwaitFadeIn (seg_afterDelay env ?s1)) (done @ [FadeIn])"
    using a True by (intro await_stage[OF outcome_afterDelay]) (simp_all add: alive_def)
  then show ?thesis unfolding stage_def r .
qed

lemma stage_afterFadeIn:
  assumes st: "stage env s s1 B AwaitFadeIn done"
  shows "final env s (resume env 0 s1) B
           (done @ ((if audioController env then [PlaySceneAudio B] else []) @
                    (if animationController env then [UpdateWaterLevel B] else [])))"
proof (cases "takeWhile (noThrow env) done = done")
  case False
  with st have d: "dead env s s1 done" by (simp add: stage_def)
  from dead_extend[OF d] resume_dead[OF d] show ?thesis
    by (simp add: final_def dead_def del: takeWhile_eq_all_conv)
next
  case True
  with st have a: "alive s s1 B AwaitFadeIn done" by (simp add: stage_def)
  let ?s1 = "overlayFadeInDone (s1\<lparr>suspended := []\<rparr>)"
  have r: "resume env 0 s1 = tryEnd B (seg_afterFadeIn env B ?s1)"
    using a by (simp add: resume_def alive_def)
  have "if takeWhile (noThrow env) (done @ ((if audioController env then [PlaySceneAudio B] else []) @
                    (if animationController env then [UpdateWaterLevel B] else [])))
           = done @ ((if audioController env then [PlaySceneAudio B] else []) @
                    (if animationController env then [UpdateWaterLevel B] else []))
        then finished s (tryEnd B (seg_afterFadeIn env B ?s1)) B (done @ ((if audioController env then [PlaySceneAudio B] else []) @
                    (if animationController env then [UpdateWaterLevel B] else [])))
        else dead env s (tryEnd B (seg_afterFadeIn env B ?s1)) (done @ ((if audioController env then [PlaySceneAudio B] else []) @
                    (if animationController env then [UpdateWaterLevel B] else [])))"
    using a True by (intro complete_stage[OF outcome_afterFadeIn]) (simp_all add: alive_def)
  then show ?thesis unfolding final_def r .
qed

lemma transition_final:
  assumes "\<not> isTransitioning s" "suspended s = []" "scenes env B \<noteq> None" "currentScene s = A" "A \<noteq> B"
  shows "final env s (sm_run env s [SwitchScene B, Resume 0, Resume 0, Resume 0]) B (transitionCalls env A B)"
proof -
  have ne: "currentScene s \<noteq> B" using assms by simp
  have lc: "lastCommit (currentScene s) [FadeOut] = A" using assms by (simp add: lastCommit_def)
  note s1 = stage_begin[OF assms(1,2,3) ne]
  note s2 = stage_afterFadeOut[OF s1 lc]
  note s3 = stage_afterDelay[OF s2]
  note s4 = stage_afterFadeIn[OF s3]
  have cs: "transitionCalls env A B = (([FadeOut] @ ((if audioController env then [StopSceneAudio A] else []) @ [HideScene A] @ afterHide env B)) @ [FadeIn]) @
    ((if audioController env then [PlaySceneAudio B] else []) @ (if animationController env then [UpdateWaterLevel B] else []))"
    by (simp add: transitionCalls_def afterHide_def)
  show ?thesis unfolding cs sm_run_def using s4 by simp
qed

subsection \<open>A pending transition always ends\<close>

text \<open>The number of segments a suspended activation still has to run.\<close>

fun phase_rank :: "phase \<Rightarrow> nat" where
  "phase_rank AwaitFadeOut = 3"
| "phase_rank AwaitDelay = 2"
| "phase_rank AwaitFadeIn = 1"

definition rank :: "scene_manager \<Rightarrow> nat" where
  "rank s = (case suspended s of [] \<Rightarrow> 0 | p # ps \<Rightarrow> phase_rank (snd p))"

lemma await_rank:
  assumes "keeps s r" "suspended s = []"
  shows "rank (await y ph r) \<le> phase_rank ph"
  using assms
  by (cases r) (auto simp: keeps_def guardOf_def await_def catchFinally_def logc_def rank_def)

lemma tryEnd_rank:
  assumes "keeps s r" "suspended s = []"
  shows "rank (tryEnd y r) = 0"
  using assms
  by (cases r) (auto simp: keeps_def guardOf_def tryEnd_def catchFinally_def logc_def rank_def)

lemma resume_rank:
  assumes "guard_inv s"
  shows "rank (resume env 0 s) \<le> rank s - 1"
proof (cases "suspended s")
  case Nil
  then show ?thesis by (simp add: resume_def rank_def)
next
  case (Cons p ps)
  with assms have sus: "suspended s = [p]" by (simp add: guard_inv_def)
  obtain y ph where p: "p = (y, ph)" by (cases p)
  let ?s1 = "s\<lparr>suspended := []\<rparr>"
  have a: "suspended ?s1 = []" "suspended (overlayFadeInDone ?s1) = []" by simp_all
  show ?thesis
    using sus p await_rank[OF keeps_afterFadeOut a(1), of y AwaitDelay env y]
      await_rank[OF keeps_afterDelay a(1), of y AwaitFadeIn env]
      tryEnd_rank[OF keeps_afterFadeIn a(2), of y env y]
    by (cases ph) (simp_all add: resume_def rank_def)
qed

lemma phase_rank_pos: "0 < phase_rank ph"
  by (cases ph) simp_all

lemma rank_0: "rank s = 0 \<Longrightarrow> suspended s = []"
proof (cases "suspended s")
  case Nil
  then show ?thesis by simp
next
  case (Cons p ps)
  assume "rank s = 0"
  with Cons phase_rank_pos[of "snd p"] show ?thesis by (simp add: rank_def)
qed

lemma rank_le3: "rank s \<le> 3"
proof (cases "suspended s")
  case Nil
  then show ?thesis by (simp add: rank_def)
next
  case (Cons p ps)
  then show ?thesis by (cases "snd p") (simp_all add: rank_def)
qed

lemma three_resumes_idle:
  assumes "guard_inv s"
  shows "\<not> isTransitioning (sm_run env s [Resume 0, Resume 0, Resume 0])"
    "suspended (sm_run env s [Resume 0, Resume 0, Resume 0]) = []"
proof -
  let ?s1 = "resume env 0 s"
  let ?s2 = "resume env 0 ?s1"
  let ?s3 = "resume env 0 ?s2"
  have g1: "guard_inv ?s1" by (rule guard_inv_resume[OF assms])
  have g2: "guard_inv ?s2" by (rule guard_inv_resume[OF g1])
  have g3: "guard_inv ?s3" by (rule guard_inv_resume[OF g2])
  have "rank ?s3 \<le> rank ?s2 - 1" by (rule resume_rank[OF g2])
  also have "\<dots> \<le> rank ?s1 - 1 - 1" using resume_rank[OF g1, of env] by simp
  also have "\<dots> \<le> rank s - 1 - 1 - 1" using resume_rank[OF assms, of env] by simp
  also have "\<dots> = 0" using rank_le3[of s] by simp
  finally have "rank ?s3 = 0" by simp
  then have s: "suspended ?s3 = []" by (rule rank_0)
  have run: "sm_run env s [Resume 0, Resume 0, Resume 0] = ?s3" by (simp add: sm_run_def)
  show "suspended (sm_run env s [Resume 0, Resume 0, Resume 0]) = []" unfolding run by (rule s)
  show "\<not> isTransitioning (sm_run env s [Resume 0, Resume 0, Resume 0])"
    unfolding run using g3 s by (simp add: guard_inv_def)
qed


subsection \<open>The undisturbed transition\<close>










subsection \<open>The guard\<close>

lemma first_throw:
  assumes "takeWhile (noThrow env) cs \<noteq> cs"
  shows "throws env (cs ! length (takeWhile (noThrow env) cs))"
proof -
  have "length (takeWhile (noThrow env) cs) < length cs"
    using assms
    by (metis length_takeWhile_le le_neq_implies_less takeWhile_eq_take take_all_iff order_refl)
  then have n: "\<not> noThrow env (cs ! length (takeWhile (noThrow env) cs))"
    by (rule nth_length_takeWhile)
  then show ?thesis by (cases "cs ! length (takeWhile (noThrow env) cs)") simp_all
qed

lemma transition_outcome:
  assumes "guard_inv s" "\<not> isTransitioning s" "scenes env B \<noteq> None" "currentScene s \<noteq> B"
  shows "\<not> isTransitioning (sm_run env s [SwitchScene B, Resume 0, Resume 0, Resume 0]) \<and>
         suspended (sm_run env s [SwitchScene B, Resume 0, Resume 0, Resume 0]) = [] \<and>
         calls (sm_run env s [SwitchScene B, Resume 0, Resume 0, Resume 0]) =
           calls s @ takeWhile (noThrow env) (transitionCalls env (currentScene s) B) \<and>
         (takeWhile (noThrow env) (transitionCalls env (currentScene s) B) \<noteq>
            transitionCalls env (currentScene s) B \<longrightarrow>
          last (console (sm_run env s [SwitchScene B, Resume 0, Resume 0, Resume 0])) =
            ErrorTransition (transitionCalls env (currentScene s) B !
               length (takeWhile (noThrow env) (transitionCalls env (currentScene s) B))) \<and>
          throws env (transitionCalls env (currentScene s) B !
               length (takeWhile (noThrow env) (transitionCalls env (currentScene s) B))))"
proof -
  have sus: "suspended s = []" using assms(1,2) by (simp add: guard_inv_def)
  have ne: "currentScene s \<noteq> B" by (rule assms(4))
  note f = transition_final[OF assms(2) sus assms(3) refl ne]
  show ?thesis
  proof (cases "takeWhile (noThrow env) (transitionCalls env (currentScene s) B) =
                  transitionCalls env (currentScene s) B")
    case True
    with f have "finished s (sm_run env s [SwitchScene B, Resume 0, Resume 0, Resume 0]) B
                   (transitionCalls env (currentScene s) B)"
      by (simp add: final_def del: takeWhile_eq_all_conv)
    with True show ?thesis by (simp add: finished_def del: takeWhile_eq_all_conv)
  next
    case False
    with f have "dead env s (sm_run env s [SwitchScene B, Resume 0, Resume 0, Resume 0])
                   (transitionCalls env (currentScene s) B)"
      by (simp add: final_def del: takeWhile_eq_all_conv)
    with first_throw[OF False] show ?thesis by (simp add: dead_def del: takeWhile_eq_all_conv)
  qed
qed

text \<open>
  Claim C2. In every state the manager reaches from one that satisfies the guard
  invariant (as the freshly constructed manager does), whatever the requests and the
  resumptions, and whichever collaborators are installed and calls throw at each of
  them: at most one activation of \<open>switchScene\<close> is
  suspended, and \<open>isTransitioning\<close> is set exactly while one is; a request made while
  \<open>isTransitioning\<close> is set adds one console warning and changes nothing else (so the
  current scene, the calls made and the suspended activation stay as they are); a pending
  transition is over after at most three resumptions, with the guard clear; and a
  transition started from idle ends with the guard clear and nothing suspended whichever
  call throws, having made the calls before the first throwing one and, when a call
  threw, having logged that call's error last.
\<close>

theorem transition_guard:
  assumes "guard_inv s0" and "s = sm_run_in s0 evs"
  shows "length (suspended s) \<le> 1 \<and> (isTransitioning s = (suspended s \<noteq> [])) \<and>
         (isTransitioning s \<longrightarrow>
            (\<forall>y. switchScene env y s = s\<lparr>console := console s @ [WarnTransitionInProgress]\<rparr>)) \<and>
         \<not> isTransitioning (sm_run env s [Resume 0, Resume 0, Resume 0]) \<and>
         suspended (sm_run env s [Resume 0, Resume 0, Resume 0]) = [] \<and>
         (\<forall>B. \<not> isTransitioning s \<and> scenes env B \<noteq> None \<and> currentScene s \<noteq> B \<longrightarrow>
            \<not> isTransitioning (sm_run env s [SwitchScene B, Resume 0, Resume 0, Resume 0]) \<and>
            suspended (sm_run env s [SwitchScene B, Resume 0, Resume 0, Resume 0]) = [] \<and>
            calls (sm_run env s [SwitchScene B, Resume 0, Resume 0, Resume 0]) =
              calls s @ takeWhile (noThrow env) (transitionCalls env (currentScene s) B) \<and>
            (takeWhile (noThrow env) (transitionCalls env (currentScene s) B) \<noteq>
               transitionCalls env (currentScene s) B \<longrightarrow>
             last (console (sm_run env s [SwitchScene B, Resume 0, Resume 0, Resume 0])) =
               ErrorTransition (transitionCalls env (currentScene s) B !
                  length (takeWhile (noThrow env) (transitionCalls env (currentScene s) B))) \<and>
             throws env (transitionCalls env (currentScene s) B !
                  length (takeWhile (noThrow env) (transitionCalls env (currentScene s) B)))))"
proof -
  have g: "guard_inv s" unfolding assms(2) by (rule guard_inv_run_in[OF assms(1)])
  have A: "length (suspended s) \<le> 1 \<and> (isTransitioning s = (suspended s \<noteq> []))"
    using g by (simp add: guard_inv_def)
  have B: "isTransitioning s \<longrightarrow>
            (\<forall>y. switchScene env y s = s\<lparr>console := console s @ [WarnTransitionInProgress]\<rparr>)"
    by (simp add: switchScene_busy)
  note C = three_resumes_idle[OF g, of env]
  show ?thesis using A B C transition_outcome[OF g, of env] by blast
qed

theorem transition_guard_witness:
  "guard_inv portal_manager \<and>
   isTransitioning (sm_run failing_env portal_manager [SwitchScene ''2020'']) \<and>
   switchScene failing_env ''2050'' (sm_run failing_env portal_manager [SwitchScene ''2020'']) =
     (sm_run failing_env portal_manager [SwitchScene ''2020''])
       \<lparr>console := console (sm_run failing_env portal_manager [SwitchScene ''2020'']) @
          [WarnTransitionInProgress]\<rparr> \<and>
   \<not> isTransitioning (sm_run failing_env (sm_run failing_env portal_manager [SwitchScene ''2020''])
        [Resume 0, Resume 0, Resume 0]) \<and>
   last (console (sm_run failing_env portal_manager
        [SwitchScene ''2020'', Resume 0, Resume 0, Resume 0])) =
     ErrorTransition (StopSceneAudio ''2000'') \<and>
   calls (sm_run failing_env portal_manager
        [SwitchScene ''2020'', Resume 0, Resume 0, Resume 0]) = [FadeOut]"
proof -
  have h: "guard_inv portal_manager" by (simp add: guard_inv_def portal_manager_def)
  have e0: "portal_manager = sm_run_in portal_manager []" by (simp add: sm_run_in_def)
  have e1: "sm_run failing_env portal_manager [SwitchScene ''2020''] =
            sm_run_in portal_manager [(failing_env, SwitchScene ''2020'')]"
    by (simp add: sm_run_def sm_run_in_def)
  note T0 = transition_guard[OF h e0, of failing_env]
  note T1 = transition_guard[OF h e1, of failing_env]
  have busy: "isTransitioning (sm_run failing_env portal_manager [SwitchScene ''2020''])"
    by (simp add: sm_run_def switchScene_def portal_manager_def failing_env_def portal_env_def
        seg_begin_def perform_def await_def logc_def overlayFadeOut_def)
  have c: "\<not> isTransitioning portal_manager" "scenes failing_env ''2020'' \<noteq> None"
    "currentScene portal_manager \<noteq> ''2020''" "currentScene portal_manager = ''2000''"
    "calls portal_manager = []"
    by (simp_all add: portal_manager_def failing_env_def portal_env_def)
  have tw: "takeWhile (noThrow failing_env) (transitionCalls failing_env ''2000'' ''2020'') = [FadeOut]"
    "transitionCalls failing_env ''2000'' ''2020'' ! 1 = StopSceneAudio ''2000''"
    "[FadeOut] \<noteq> transitionCalls failing_env ''2000'' ''2020''"
    by (simp_all add: transitionCalls_def failing_env_def portal_env_def)
  from T0 c(1,2,3) have
    "calls (sm_run failing_env portal_manager [SwitchScene ''2020'', Resume 0, Resume 0, Resume 0]) =
       calls portal_manager @ takeWhile (noThrow failing_env) (transitionCalls failing_env (currentScene portal_manager) ''2020'')"
    "takeWhile (noThrow failing_env) (transitionCalls failing_env (currentScene portal_manager) ''2020'') \<noteq>
       transitionCalls failing_env (currentScene portal_manager) ''2020'' \<longrightarrow>
     last (console (sm_run failing_env portal_manager [SwitchScene ''2020'', Resume 0, Resume 0, Resume 0])) =
       ErrorTransition (transitionCalls failing_env (currentScene portal_manager) ''2020'' !
          length (takeWhile (noThrow failing_env) (transitionCalls failing_env (currentScene portal_manager) ''2020'')))"
    by blast+
  then have D: "calls (sm_run failing_env portal_manager [SwitchScene ''2020'', Resume 0, Resume 0, Resume 0]) = [FadeOut]"
    "last (console (sm_run failing_env portal_manager [SwitchScene ''2020'', Resume 0, Resume 0, Resume 0])) =
       ErrorTransition (StopSceneAudio ''2000'')"
    unfolding c(4) tw(1) using tw(2,3) c(5) by simp_all
  from T1 busy have E:
    "switchScene failing_env ''2050'' (sm_run failing_env portal_manager [SwitchScene ''2020'']) =
     (sm_run failing_env portal_manager [SwitchScene ''2020''])
       \<lparr>console := console (sm_run failing_env portal_manager [SwitchScene ''2020'']) @
          [WarnTransitionInProgress]\<rparr>"
    "\<not> isTransitioning (sm_run failing_env (sm_run failing_env portal_manager [SwitchScene ''2020''])
        [Resume 0, Resume 0, Resume 0])"
    by blast+
  show ?thesis using h busy D E by blast
qed




subsection \<open>Fade timers\<close>

lemma find_setStep:
  "find (\<lambda>f. fid f = h) (map (\<lambda>f. if fid f = g then f\<lparr>currentStep := k\<rparr> else f) fs) =
   (if g = h then map_option (\<lambda>f. f\<lparr>currentStep := k\<rparr>) (find (\<lambda>f. fid f = h) fs)
    else find (\<lambda>f. fid f = h) fs)"
  by (induction fs) auto

lemma find_clear:
  "find (\<lambda>f. fid f = h) (filter (\<lambda>f. fid f \<noteq> g) fs) =
   (if g = h then None else find (\<lambda>f. fid f = h) fs)"
  by (induction fs) auto

lemma stepOf_setVolume [simp]: "stepOf h (setVolume c v s) = stepOf h s"
  by (simp add: stepOf_def setVolume_def)

lemma stepOf_setStep: "stepOf h (setStep g k s) = (if g = h then map_option (\<lambda>_. k) (stepOf h s) else stepOf h s)"
  by (simp add: stepOf_def setStep_def find_setStep option.map_comp o_def)

lemma stepOf_clearFade: "stepOf h (clearFade g s) = (if g = h then None else stepOf h s)"
  by (simp add: stepOf_def clearFade_def find_clear)

lemma stepOf_callback [simp]: "stepOf h (s\<lparr>callbackRuns := r\<rparr>) = stepOf h s"
  by (simp add: stepOf_def)

lemma find_fid: "find (\<lambda>f. fid f = h) fs = Some f \<Longrightarrow> fid f = h"
  by (induction fs) (auto split: if_splits)

lemma stepOf_tick_other:
  assumes "g \<noteq> h"
  shows "stepOf h (fadeTick cfg g s) = stepOf h s"
proof (cases "find (\<lambda>f. fid f = g) (fadeIntervals s)")
  case None
  then show ?thesis by (simp add: fadeTick_def)
next
  case (Some f)
  then have "fid f = g" by (rule find_fid)
  with Some assms show ?thesis
    by (cases "kind f")
      (auto simp: fadeTick_def fadeInTick_def fadeOutTick_def Let_def stepOf_setStep stepOf_clearFade)
qed

lemma stepOf_tick_self:
  assumes "stepOf h s = Some k"
  shows "stepOf h (fadeTick cfg h s) = None \<or> (stepOf h (fadeTick cfg h s) = Some (Suc k) \<and> Suc k < steps)"
proof -
  from assms obtain f where f: "find (\<lambda>f. fid f = h) (fadeIntervals s) = Some f" "currentStep f = k"
    by (auto simp: stepOf_def)
  then have "fid f = h" using find_fid by fast
  with f assms show ?thesis
    by (cases "kind f")
      (auto simp: fadeTick_def fadeInTick_def fadeOutTick_def Let_def stepOf_setStep stepOf_clearFade)
qed

lemma tick_cleared: "stepOf h s = None \<Longrightarrow> fadeTick cfg h s = s"
  by (simp add: stepOf_def fadeTick_def)

lemma stepOf_tick_none: "stepOf h s = None \<Longrightarrow> stepOf h (fadeTick cfg g s) = None"
  by (cases "g = h") (auto simp: stepOf_tick_other tick_cleared)

lemma fadeTicks_Nil [simp]: "fadeTicks cfg s [] = s"
  by (simp add: fadeTicks_def)

lemma fadeTicks_Cons [simp]: "fadeTicks cfg s (g # hs) = fadeTicks cfg (fadeTick cfg g s) hs"
  by (simp add: fadeTicks_def)

lemma stepOf_ticks_none: "stepOf h s = None \<Longrightarrow> stepOf h (fadeTicks cfg s hs) = None"
  by (induction hs arbitrary: s) (simp_all add: stepOf_tick_none)

lemma timer_dies:
  assumes "stepOf h s = Some k" "k < steps" "steps \<le> k + count_list hs h"
  shows "stepOf h (fadeTicks cfg s hs) = None"
  using assms
proof (induction hs arbitrary: s k)
  case Nil
  then show ?case by simp
next
  case (Cons g hs)
  show ?case
  proof (cases "g = h")
    case False
    with Cons.prems have "stepOf h (fadeTick cfg g s) = Some k" "steps \<le> k + count_list hs h"
      by (simp_all add: stepOf_tick_other)
    from Cons.IH[OF this(1) Cons.prems(2) this(2)] show ?thesis by simp
  next
    case True
    from stepOf_tick_self[OF Cons.prems(1), of cfg]
    show ?thesis
    proof
      assume "stepOf h (fadeTick cfg h s) = None"
      then show ?thesis using True by (simp add: stepOf_ticks_none)
    next
      assume a: "stepOf h (fadeTick cfg h s) = Some (Suc k) \<and> Suc k < steps"
      have "steps \<le> Suc k + count_list hs h" using Cons.prems(3) True by simp
      from Cons.IH[OF conjunct1[OF a] conjunct2[OF a] this] show ?thesis using True by simp
    qed
  qed
qed

lemma fadeIn_adds:
  "fadeIntervals (fadeIn cfg (Some c) s) = fadeIntervals s @
     [\<lparr>fid = Suc (nextFadeId s), channel = c, kind = FadingIn, currentStep = 0, bound = masterVolume s,
       volumeStep = rnd cfg (masterVolume s / real steps), stepTime = rnd cfg (fadeInTime cfg / real steps),
       callback = False\<rparr>]"
  by (simp add: fadeIn_def Let_def setVolume_def)

lemma fadeOut_adds:
  "fadeIntervals (fadeOut cfg (Some c) cb s) = fadeIntervals s @
     [\<lparr>fid = Suc (nextFadeId s), channel = c, kind = FadingOut, currentStep = 0, bound = volume s c,
       volumeStep = rnd cfg (volume s c / real steps), stepTime = rnd cfg (fadeOutTime cfg / real steps),
       callback = cb\<rparr>]"
  by (simp add: fadeOut_def Let_def)


lemma find_app: "find P (xs @ ys) = (case find P xs of None \<Rightarrow> find P ys | Some x \<Rightarrow> Some x)"
  by (induction xs) auto

lemma find_fresh:
  assumes "freshIds s"
  shows "find (\<lambda>f. fid f = Suc (nextFadeId s)) (fadeIntervals s @ [t]) = (if fid t = Suc (nextFadeId s) then Some t else None)"
proof -
  have "find (\<lambda>f. fid f = Suc (nextFadeId s)) (fadeIntervals s) = None"
    using assms by (auto simp: freshIds_def find_None_iff list_all_iff)
  then show ?thesis by (simp add: find_app)
qed

text \<open>
  The state of a fade-in started in \<open>s0\<close> on element \<open>c\<close> after \<open>k\<close> firings of its
  timer: the timer is alive with its counter at \<open>k\<close>, and the writes so far are 0 and the
  first \<open>k\<close> step values.
\<close>

definition inAlive :: "audio_cfg \<Rightarrow> nat \<Rightarrow> audio \<Rightarrow> nat \<Rightarrow> audio \<Rightarrow> bool" where
  "inAlive cfg c s0 k s =
     (find (\<lambda>f. fid f = Suc (nextFadeId s0)) (fadeIntervals s) = Some ((fadeInTimer cfg c s0)\<lparr>currentStep := k\<rparr>) \<and>
      volumeWrites s = volumeWrites s0 @ map (Pair c) (0 # map (fadeInLevel cfg (masterVolume s0)) [1..<Suc k]))"

lemma inAlive_start:
  assumes "freshIds s0"
  shows "inAlive cfg c s0 0 (fadeIn cfg (Some c) s0)"
  using find_fresh[OF assms, of "fadeInTimer cfg c s0"]
  by (simp add: inAlive_def fadeIn_adds fadeInTimer_def) (simp add: fadeIn_def Let_def setVolume_def)

lemma find_setStep_fields:
  "find (\<lambda>f. fid f = h) (fadeIntervals (setVolume c v (setStep h k s))) =
     map_option (\<lambda>f. f\<lparr>currentStep := k\<rparr>) (find (\<lambda>f. fid f = h) (fadeIntervals s))"
  by (simp add: setVolume_def setStep_def find_setStep)

lemma writes_setVolume [simp]: "volumeWrites (setVolume c v s) = volumeWrites s @ [(c, v)]"
  by (simp add: setVolume_def)

lemma writes_misc [simp]: "volumeWrites (setStep h k s) = volumeWrites s" "volumeWrites (clearFade h s) = volumeWrites s"
  "callbackRuns (setStep h k s) = callbackRuns s" "callbackRuns (clearFade h s) = callbackRuns s"
  "callbackRuns (setVolume c v s) = callbackRuns s"
  "volume (setStep h k s) = volume s" "volume (clearFade h s) = volume s"
  "volume (setVolume c v s) c = v"
  by (simp_all add: setStep_def clearFade_def setVolume_def)

lemma inAlive_step:
  assumes "inAlive cfg c s0 k s" "Suc k < steps"
  shows "inAlive cfg c s0 (Suc k) (fadeTick cfg (Suc (nextFadeId s0)) s)"
  using assms
  by (simp add: inAlive_def fadeTick_def fadeInTick_def fadeInTimer_def Let_def find_setStep_fields fadeInLevel_def)

lemma inAlive_last:
  assumes "inAlive cfg c s0 k s" "Suc k = steps"
  shows "stepOf (Suc (nextFadeId s0)) (fadeTick cfg (Suc (nextFadeId s0)) s) = None"
    "volumeWrites (fadeTick cfg (Suc (nextFadeId s0)) s) =
       volumeWrites s0 @ map (Pair c) (0 # map (fadeInLevel cfg (masterVolume s0)) [1..<Suc steps] @ [masterVolume s0])"
    "volume (fadeTick cfg (Suc (nextFadeId s0)) s) c = masterVolume s0"
  using assms
  by (simp_all add: inAlive_def fadeTick_def fadeInTick_def fadeInTimer_def Let_def fadeInLevel_def
      stepOf_clearFade)


lemma fadeTicks_replicate: "fadeTicks cfg s (replicate n h) = (fadeTick cfg h ^^ n) s"
  by (induction n arbitrary: s) (simp_all add: funpow_swap1)

lemma inAlive_iter:
  assumes "freshIds s0" "k < steps"
  shows "inAlive cfg c s0 k ((fadeTick cfg (Suc (nextFadeId s0)) ^^ k) (fadeIn cfg (Some c) s0))"
  using assms(2)
proof (induction k)
  case 0
  then show ?case by (simp add: inAlive_start[OF assms(1)])
next
  case (Suc k)
  then have "inAlive cfg c s0 k ((fadeTick cfg (Suc (nextFadeId s0)) ^^ k) (fadeIn cfg (Some c) s0))" by simp
  from inAlive_step[OF this Suc.prems] show ?case by simp
qed

lemma rnd_nonneg: "mono r \<Longrightarrow> r 0 = 0 \<Longrightarrow> 0 \<le> x \<Longrightarrow> 0 \<le> r (x::real)"
  using monoD[of r 0 x] by simp

lemma fadeInLevel_mono:
  assumes "mono (rnd cfg)" "rnd cfg 0 = 0" "0 \<le> T" "j \<le> k"
  shows "fadeInLevel cfg T j \<le> fadeInLevel cfg T k"
proof -
  have vs: "0 \<le> rnd cfg (T / real steps)" using assms(3) by (intro rnd_nonneg[OF assms(1,2)]) (simp add: steps_def)
  have "rnd cfg (T / real steps) * real j \<le> rnd cfg (T / real steps) * real k"
    using vs assms(4) by (intro mult_left_mono) simp_all
  then have "rnd cfg (rnd cfg (T / real steps) * real j) \<le> rnd cfg (rnd cfg (T / real steps) * real k)"
    using assms(1) by (rule monoD[rotated])
  then show ?thesis by (simp add: fadeInLevel_def)
qed

lemma fadeInLevel_bounds:
  assumes "mono (rnd cfg)" "rnd cfg 0 = 0" "0 \<le> T"
  shows "0 \<le> fadeInLevel cfg T k" "fadeInLevel cfg T k \<le> T"
proof -
  have vs: "0 \<le> rnd cfg (T / real steps)" using assms(3) by (intro rnd_nonneg[OF assms(1,2)]) (simp add: steps_def)
  then have "0 \<le> rnd cfg (rnd cfg (T / real steps) * real k)" by (intro rnd_nonneg[OF assms(1,2)]) simp
  then show "0 \<le> fadeInLevel cfg T k" using assms(3) by (simp add: fadeInLevel_def)
  show "fadeInLevel cfg T k \<le> T" by (simp add: fadeInLevel_def)
qed

lemma sorted_map_upt:
  assumes "\<And>i j. i \<le> j \<Longrightarrow> f i \<le> (f j :: real)"
  shows "sorted (map f [a..<b])"
proof -
  have "sorted_wrt (\<lambda>x y. f x \<le> f y) [a..<b]"
    by (rule sorted_wrt_mono_rel[OF _ sorted_wrt_upt]) (simp add: assms)
  then show ?thesis by (simp only: sorted_wrt_map)
qed

lemma fadeIn_sorted:
  assumes "mono (rnd cfg)" "rnd cfg 0 = 0" "0 \<le> T"
  shows "sorted (0 # map (fadeInLevel cfg T) [1..<Suc n] @ [T])"
proof -
  have "sorted (map (fadeInLevel cfg T) [1..<Suc n])"
    by (rule sorted_map_upt) (rule fadeInLevel_mono[OF assms])
  then show ?thesis using fadeInLevel_bounds[OF assms] assms(3)
    by (auto simp: sorted_append simp del: upt_Suc)
qed


text \<open>
  The same for a fade-out, which also stops when it finds the volume at 0: it is alive
  after \<open>k\<close> firings with all step values so far positive, or it has stopped at its
  \<open>m\<close>-th firing, having written the step values, then 0, and run its callback.
\<close>

definition outAlive :: "audio_cfg \<Rightarrow> nat \<Rightarrow> bool \<Rightarrow> audio \<Rightarrow> nat \<Rightarrow> audio \<Rightarrow> bool" where
  "outAlive cfg c cb s0 k s =
     (find (\<lambda>f. fid f = Suc (nextFadeId s0)) (fadeIntervals s) = Some ((fadeOutTimer cfg c cb s0)\<lparr>currentStep := k\<rparr>) \<and>
      k < steps \<and>
      volumeWrites s = volumeWrites s0 @ map (Pair c) (map (fadeOutLevel cfg (volume s0 c)) [1..<Suc k]) \<and>
      callbackRuns s = callbackRuns s0 \<and>
      list_all (\<lambda>j. 0 < fadeOutLevel cfg (volume s0 c) j) [1..<Suc k])"

definition outDead :: "audio_cfg \<Rightarrow> nat \<Rightarrow> bool \<Rightarrow> audio \<Rightarrow> nat \<Rightarrow> audio \<Rightarrow> bool" where
  "outDead cfg c cb s0 m s =
     (stepOf (Suc (nextFadeId s0)) s = None \<and> 1 \<le> m \<and> m \<le> steps \<and>
      volumeWrites s = volumeWrites s0 @ map (Pair c) (map (fadeOutLevel cfg (volume s0 c)) [1..<Suc m] @ [0]) \<and>
      volume s c = 0 \<and>
      callbackRuns s = callbackRuns s0 @ (if cb then [Suc (nextFadeId s0)] else []) \<and>
      (m = steps \<or> fadeOutLevel cfg (volume s0 c) m \<le> 0) \<and>
      list_all (\<lambda>j. 0 < fadeOutLevel cfg (volume s0 c) j) [1..<m])"

lemma outAlive_start:
  assumes "freshIds s0"
  shows "outAlive cfg c cb s0 0 (fadeOut cfg (Some c) cb s0)"
  using find_fresh[OF assms, of "fadeOutTimer cfg c cb s0"]
  by (simp add: outAlive_def fadeOut_adds fadeOutTimer_def) (simp add: fadeOut_def Let_def steps_def)

lemma outAlive_step:
  assumes "outAlive cfg c cb s0 k s"
  shows "if steps \<le> Suc k \<or> fadeOutLevel cfg (volume s0 c) (Suc k) \<le> 0
         then outDead cfg c cb s0 (Suc k) (fadeTick cfg (Suc (nextFadeId s0)) s)
         else outAlive cfg c cb s0 (Suc k) (fadeTick cfg (Suc (nextFadeId s0)) s)"
  using assms
  by (auto simp add: outAlive_def outDead_def fadeTick_def fadeOutTick_def fadeOutTimer_def Let_def
      find_setStep_fields fadeOutLevel_def stepOf_clearFade)

lemma outDead_step:
  assumes "outDead cfg c cb s0 m s"
  shows "fadeTick cfg (Suc (nextFadeId s0)) s = s"
  using assms by (simp add: outDead_def tick_cleared)

lemma out_iter:
  assumes "freshIds s0"
  shows "(n < steps \<and> outAlive cfg c cb s0 n ((fadeTick cfg (Suc (nextFadeId s0)) ^^ n) (fadeOut cfg (Some c) cb s0))) \<or>
         (\<exists>m\<le>n. outDead cfg c cb s0 m ((fadeTick cfg (Suc (nextFadeId s0)) ^^ n) (fadeOut cfg (Some c) cb s0)))"
proof (induction n)
  case 0
  then show ?case using outAlive_start[OF assms, of cfg c cb] by (simp add: steps_def)
next
  case (Suc n)
  let ?s = "(fadeTick cfg (Suc (nextFadeId s0)) ^^ n) (fadeOut cfg (Some c) cb s0)"
  from Suc.IH show ?case
  proof
    assume a: "n < steps \<and> outAlive cfg c cb s0 n ?s"
    show ?thesis
    proof (cases "steps \<le> Suc n \<or> fadeOutLevel cfg (volume s0 c) (Suc n) \<le> 0")
      case True
      with outAlive_step[OF conjunct2[OF a]] have "outDead cfg c cb s0 (Suc n) (fadeTick cfg (Suc (nextFadeId s0)) ?s)"
        by simp
      then show ?thesis by (intro disjI2 exI[of _ "Suc n"]) simp
    next
      case False
      with outAlive_step[OF conjunct2[OF a]] have "outAlive cfg c cb s0 (Suc n) (fadeTick cfg (Suc (nextFadeId s0)) ?s)"
        by simp
      with False show ?thesis by (intro disjI1) simp
    qed
  next
    assume "\<exists>m\<le>n. outDead cfg c cb s0 m ?s"
    then obtain m where m: "m \<le> n" "outDead cfg c cb s0 m ?s" by auto
    from outDead_step[OF m(2)] m show ?thesis by (intro disjI2 exI[of _ m]) simp
  qed
qed

lemma fadeOutLevel_antimono:
  assumes "mono (rnd cfg)" "rnd cfg 0 = 0" "0 \<le> v" "j \<le> k"
  shows "fadeOutLevel cfg v k \<le> fadeOutLevel cfg v j"
proof -
  have vs: "0 \<le> rnd cfg (v / real steps)" using assms(3) by (intro rnd_nonneg[OF assms(1,2)]) (simp add: steps_def)
  have "rnd cfg (v / real steps) * real j \<le> rnd cfg (v / real steps) * real k"
    using vs assms(4) by (intro mult_left_mono) simp_all
  then have "rnd cfg (rnd cfg (v / real steps) * real j) \<le> rnd cfg (rnd cfg (v / real steps) * real k)"
    using assms(1) by (rule monoD[rotated])
  then have "v - rnd cfg (rnd cfg (v / real steps) * real k) \<le> v - rnd cfg (rnd cfg (v / real steps) * real j)"
    by simp
  then have "rnd cfg (v - rnd cfg (rnd cfg (v / real steps) * real k)) \<le> rnd cfg (v - rnd cfg (rnd cfg (v / real steps) * real j))"
    using assms(1) by (rule monoD[rotated])
  then show ?thesis by (simp add: fadeOutLevel_def)
qed

lemma fadeOutLevel_0:
  assumes "rnd cfg 0 = 0" "0 \<le> v" "rnd cfg v = v"
  shows "fadeOutLevel cfg v 0 = v"
  using assms by (simp add: fadeOutLevel_def)

lemma fadeOutLevel_nonneg: "0 \<le> fadeOutLevel cfg v k"
  by (simp add: fadeOutLevel_def)

lemma sorted_wrt_map_upt_ge:
  assumes "\<And>i j. i \<le> j \<Longrightarrow> f j \<le> (f i :: real)"
  shows "sorted_wrt (\<ge>) (map f [a..<b])"
proof -
  have "sorted_wrt (\<lambda>x y. f x \<ge> f y) [a..<b]"
    by (rule sorted_wrt_mono_rel[OF _ sorted_wrt_upt]) (simp add: assms)
  then show ?thesis by (simp only: sorted_wrt_map)
qed

lemma fadeOut_sorted:
  assumes "mono (rnd cfg)" "rnd cfg 0 = 0" "0 \<le> v" "rnd cfg v = v"
  shows "sorted_wrt (\<ge>) (v # map (fadeOutLevel cfg v) [1..<Suc m] @ [0])"
proof -
  have s: "sorted_wrt (\<ge>) (map (fadeOutLevel cfg v) [1..<Suc m])"
    by (rule sorted_wrt_map_upt_ge) (rule fadeOutLevel_antimono[OF assms(1-3)])
  have le: "fadeOutLevel cfg v k \<le> v" for k
    using fadeOutLevel_antimono[OF assms(1-3), of 0 k] fadeOutLevel_0[OF assms(2-4)] by simp
  show ?thesis using s le fadeOutLevel_nonneg[of cfg v] assms(3)
    by (auto simp: sorted_wrt_append simp del: upt_Suc)
qed

subsection \<open>A fade run to completion\<close>

lemma fadeInRun_result:
  assumes "freshIds s0"
  shows "volumeWrites (fadeInRun cfg c s0) =
           volumeWrites s0 @ map (Pair c)
             (0 # map (fadeInLevel cfg (masterVolume s0)) [1..<Suc steps] @ [masterVolume s0])"
    "volume (fadeInRun cfg c s0) c = masterVolume s0"
    "stepOf (Suc (nextFadeId s0)) (fadeInRun cfg c s0) = None"
proof -
  obtain k where k: "steps = Suc k" by (simp add: steps_def)
  have lt: "k < steps" using k by simp
  let ?f = "fadeTick cfg (Suc (nextFadeId s0))"
  have run: "fadeInRun cfg c s0 = ?f ((?f ^^ k) (fadeIn cfg (Some c) s0))"
    by (simp add: fadeInRun_def fadeTicks_replicate k funpow_swap1)
  note a = inAlive_iter[OF assms lt, of cfg c]
  note l = inAlive_last[OF a k[symmetric]]
  show "volumeWrites (fadeInRun cfg c s0) =
           volumeWrites s0 @ map (Pair c)
             (0 # map (fadeInLevel cfg (masterVolume s0)) [1..<Suc steps] @ [masterVolume s0])"
    unfolding run by (rule l(2))
  show "volume (fadeInRun cfg c s0) c = masterVolume s0" unfolding run by (rule l(3))
  show "stepOf (Suc (nextFadeId s0)) (fadeInRun cfg c s0) = None" unfolding run by (rule l(1))
qed

lemma fadeOutRun_dead:
  assumes "freshIds s0"
  shows "\<exists>m. outDead cfg c cb s0 m (fadeOutRun cfg c cb s0)"
proof -
  have run: "fadeOutRun cfg c cb s0 =
      (fadeTick cfg (Suc (nextFadeId s0)) ^^ steps) (fadeOut cfg (Some c) cb s0)"
    by (simp add: fadeOutRun_def fadeTicks_replicate)
  from out_iter[OF assms, of steps cfg c cb] show ?thesis unfolding run by auto
qed

lemma count_replicate: "count_list (replicate n x) x = n"
  by (induction n) simp_all

lemma exact_level_pos:
  assumes "rnd cfg = (\<lambda>x. x)" "0 < v" "k < steps"
  shows "0 < fadeOutLevel cfg v k"
proof -
  have "v / real steps * real k < v"
    using assms(2,3) by (simp add: steps_def field_simps)
  then show ?thesis using assms(1) by (simp add: fadeOutLevel_def)
qed

text \<open>
  Claim C5. Let the rounding of arithmetic results be monotone and exact at 0, and let
  a fade run to completion on an element without interference. A fade-in to a master
  volume \<open>T \<ge> 0\<close> writes 0, then the twenty step values, then \<open>T\<close>: a non-decreasing
  sequence that ends with the volume at exactly \<open>T\<close> and the timer cleared. A fade-out
  from a volume \<open>v \<ge> 0\<close> (a value the rounding leaves alone) writes the step values
  of its first \<open>m\<close> steps, \<open>1 \<le> m \<le> 20\<close>, then 0: together with \<open>v\<close> in front a
  non-increasing sequence that ends with the volume at exactly 0 and the timer cleared;
  it stops before step 20 only when a step value is not positive, which with exact
  arithmetic and \<open>v > 0\<close> does not happen; a callback that was passed has run exactly
  once, and further firings of the handle change nothing.
\<close>

theorem fades_are_monotone_and_exact:
  assumes "mono (rnd cfg)" and "rnd cfg 0 = 0" and "freshIds s0"
  shows "(0 \<le> masterVolume s0 \<longrightarrow>
            volumeWrites (fadeInRun cfg c s0) =
              volumeWrites s0 @ map (Pair c)
                (0 # map (fadeInLevel cfg (masterVolume s0)) [1..<Suc steps] @ [masterVolume s0]) \<and>
            sorted (0 # map (fadeInLevel cfg (masterVolume s0)) [1..<Suc steps] @ [masterVolume s0]) \<and>
            volume (fadeInRun cfg c s0) c = masterVolume s0 \<and>
            stepOf (Suc (nextFadeId s0)) (fadeInRun cfg c s0) = None) \<and>
         (0 \<le> volume s0 c \<and> rnd cfg (volume s0 c) = volume s0 c \<longrightarrow>
            (\<exists>m. 1 \<le> m \<and> m \<le> steps \<and>
               volumeWrites (fadeOutRun cfg c cb s0) =
                 volumeWrites s0 @ map (Pair c)
                   (map (fadeOutLevel cfg (volume s0 c)) [1..<Suc m] @ [0]) \<and>
               sorted_wrt (\<ge>) (volume s0 c # map (fadeOutLevel cfg (volume s0 c)) [1..<Suc m] @ [0]) \<and>
               (m = steps \<or> fadeOutLevel cfg (volume s0 c) m \<le> 0) \<and>
               (rnd cfg = (\<lambda>x. x) \<and> 0 < volume s0 c \<longrightarrow> m = steps)) \<and>
            volume (fadeOutRun cfg c cb s0) c = 0 \<and>
            stepOf (Suc (nextFadeId s0)) (fadeOutRun cfg c cb s0) = None \<and>
            callbackRuns (fadeOutRun cfg c cb s0) =
              callbackRuns s0 @ (if cb then [Suc (nextFadeId s0)] else []) \<and>
            fadeTick cfg (Suc (nextFadeId s0)) (fadeOutRun cfg c cb s0) = fadeOutRun cfg c cb s0)"
proof -
  have A: "0 \<le> masterVolume s0 \<longrightarrow>
            volumeWrites (fadeInRun cfg c s0) =
              volumeWrites s0 @ map (Pair c)
                (0 # map (fadeInLevel cfg (masterVolume s0)) [1..<Suc steps] @ [masterVolume s0]) \<and>
            sorted (0 # map (fadeInLevel cfg (masterVolume s0)) [1..<Suc steps] @ [masterVolume s0]) \<and>
            volume (fadeInRun cfg c s0) c = masterVolume s0 \<and>
            stepOf (Suc (nextFadeId s0)) (fadeInRun cfg c s0) = None"
    using fadeInRun_result[OF assms(3), of cfg c] fadeIn_sorted[OF assms(1,2), of "masterVolume s0" steps]
    by blast
  have B: "0 \<le> volume s0 c \<and> rnd cfg (volume s0 c) = volume s0 c \<longrightarrow>
            (\<exists>m. 1 \<le> m \<and> m \<le> steps \<and>
               volumeWrites (fadeOutRun cfg c cb s0) =
                 volumeWrites s0 @ map (Pair c)
                   (map (fadeOutLevel cfg (volume s0 c)) [1..<Suc m] @ [0]) \<and>
               sorted_wrt (\<ge>) (volume s0 c # map (fadeOutLevel cfg (volume s0 c)) [1..<Suc m] @ [0]) \<and>
               (m = steps \<or> fadeOutLevel cfg (volume s0 c) m \<le> 0) \<and>
               (rnd cfg = (\<lambda>x. x) \<and> 0 < volume s0 c \<longrightarrow> m = steps)) \<and>
            volume (fadeOutRun cfg c cb s0) c = 0 \<and>
            stepOf (Suc (nextFadeId s0)) (fadeOutRun cfg c cb s0) = None \<and>
            callbackRuns (fadeOutRun cfg c cb s0) =
              callbackRuns s0 @ (if cb then [Suc (nextFadeId s0)] else []) \<and>
            fadeTick cfg (Suc (nextFadeId s0)) (fadeOutRun cfg c cb s0) = fadeOutRun cfg c cb s0"
  proof
    assume v: "0 \<le> volume s0 c \<and> rnd cfg (volume s0 c) = volume s0 c"
    from fadeOutRun_dead[OF assms(3), of cfg c cb] obtain m where
      d: "outDead cfg c cb s0 m (fadeOutRun cfg c cb s0)" by blast
    have s: "sorted_wrt (\<ge>) (volume s0 c # map (fadeOutLevel cfg (volume s0 c)) [1..<Suc m] @ [0])"
      using fadeOut_sorted[OF assms(1,2) conjunct1[OF v] conjunct2[OF v]] .
    have e: "m = steps" if "rnd cfg = (\<lambda>x. x)" "0 < volume s0 c"
    proof (rule ccontr)
      assume "m \<noteq> steps"
      with d have "m < steps" "fadeOutLevel cfg (volume s0 c) m \<le> 0" by (auto simp: outDead_def)
      with exact_level_pos[OF that, of m] show False by simp
    qed
    have m: "1 \<le> m \<and> m \<le> steps \<and>
               volumeWrites (fadeOutRun cfg c cb s0) =
                 volumeWrites s0 @ map (Pair c)
                   (map (fadeOutLevel cfg (volume s0 c)) [1..<Suc m] @ [0]) \<and>
               sorted_wrt (\<ge>) (volume s0 c # map (fadeOutLevel cfg (volume s0 c)) [1..<Suc m] @ [0]) \<and>
               (m = steps \<or> fadeOutLevel cfg (volume s0 c) m \<le> 0) \<and>
               (rnd cfg = (\<lambda>x. x) \<and> 0 < volume s0 c \<longrightarrow> m = steps)"
      using d s e by (simp add: outDead_def)
    have r: "volume (fadeOutRun cfg c cb s0) c = 0"
      "stepOf (Suc (nextFadeId s0)) (fadeOutRun cfg c cb s0) = None"
      "callbackRuns (fadeOutRun cfg c cb s0) =
              callbackRuns s0 @ (if cb then [Suc (nextFadeId s0)] else [])"
      using d by (simp_all add: outDead_def)
    show "(\<exists>m. 1 \<le> m \<and> m \<le> steps \<and>
               volumeWrites (fadeOutRun cfg c cb s0) =
                 volumeWrites s0 @ map (Pair c)
                   (map (fadeOutLevel cfg (volume s0 c)) [1..<Suc m] @ [0]) \<and>
               sorted_wrt (\<ge>) (volume s0 c # map (fadeOutLevel cfg (volume s0 c)) [1..<Suc m] @ [0]) \<and>
               (m = steps \<or> fadeOutLevel cfg (volume s0 c) m \<le> 0) \<and>
               (rnd cfg = (\<lambda>x. x) \<and> 0 < volume s0 c \<longrightarrow> m = steps)) \<and>
            volume (fadeOutRun cfg c cb s0) c = 0 \<and>
            stepOf (Suc (nextFadeId s0)) (fadeOutRun cfg c cb s0) = None \<and>
            callbackRuns (fadeOutRun cfg c cb s0) =
              callbackRuns s0 @ (if cb then [Suc (nextFadeId s0)] else []) \<and>
            fadeTick cfg (Suc (nextFadeId s0)) (fadeOutRun cfg c cb s0) = fadeOutRun cfg c cb s0"
      using m r outDead_step[OF d] by blast
  qed
  show ?thesis using A B by blast
qed

theorem fades_are_monotone_and_exact_witness:
  "mono (rnd exact_cfg) \<and> rnd exact_cfg 0 = 0 \<and> freshIds audio_example \<and>
   volume (fadeInRun exact_cfg 0 audio_example) 0 = 0.7 \<and>
   volume (fadeOutRun exact_cfg 0 True audio_example) 0 = 0 \<and>
   callbackRuns (fadeOutRun exact_cfg 0 True audio_example) = [1] \<and>
   stepOf 1 (fadeOutRun exact_cfg 0 True audio_example) = None"
proof -
  have h: "mono (rnd exact_cfg)" "rnd exact_cfg 0 = 0" "freshIds audio_example"
    by (simp_all add: exact_cfg_def mono_def freshIds_def audio_example_def)
  have c: "0 \<le> masterVolume audio_example" "masterVolume audio_example = 0.7"
    "0 \<le> volume audio_example 0 \<and> rnd exact_cfg (volume audio_example 0) = volume audio_example 0"
    "nextFadeId audio_example = 0" "callbackRuns audio_example = []"
    by (simp_all add: audio_example_def exact_cfg_def)
  note T = fades_are_monotone_and_exact[OF h, of 0 True]
  from T c(1) have "volume (fadeInRun exact_cfg 0 audio_example) 0 = masterVolume audio_example"
    by blast
  then have A: "volume (fadeInRun exact_cfg 0 audio_example) 0 = 0.7" by (simp add: c(2))
  from T c(3) have "volume (fadeOutRun exact_cfg 0 True audio_example) 0 = 0"
    "callbackRuns (fadeOutRun exact_cfg 0 True audio_example) =
       callbackRuns audio_example @ (if True then [Suc (nextFadeId audio_example)] else [])"
    "stepOf (Suc (nextFadeId audio_example)) (fadeOutRun exact_cfg 0 True audio_example) = None"
    by blast+
  then have B: "volume (fadeOutRun exact_cfg 0 True audio_example) 0 = 0"
    "callbackRuns (fadeOutRun exact_cfg 0 True audio_example) = [1]"
    "stepOf 1 (fadeOutRun exact_cfg 0 True audio_example) = None"
    by (simp_all add: c(4,5))
  show ?thesis using h A B by blast
qed

text \<open>
  Claim C4, as the code has it. A fade call cancels nothing: \<open>fadeIn\<close> and \<open>fadeOut\<close>
  each add one interval timer to those alive and remove none, so a channel with a fade
  running has one more timer after the call. What bounds the overlap is that every fade
  timer clears itself: once it has fired often enough to reach twenty steps it is gone,
  whatever other timers fire in between, and a cleared timer stays cleared.
\<close>

theorem fades_add_timers_and_clear_themselves:
  "fadeIntervals (fadeIn cfg (Some c) s) = fadeIntervals s @ [fadeInTimer cfg c s] \<and>
   fadeIntervals (fadeOut cfg (Some c) cb s) = fadeIntervals s @ [fadeOutTimer cfg c cb s] \<and>
   length (channelFades c (fadeIn cfg (Some c) s)) = Suc (length (channelFades c s)) \<and>
   length (channelFades c (fadeOut cfg (Some c) cb s)) = Suc (length (channelFades c s)) \<and>
   (\<forall>h k hs. stepOf h s = Some k \<and> k < steps \<and> steps \<le> k + count_list hs h \<longrightarrow>
       stepOf h (fadeTicks cfg s hs) = None) \<and>
   (\<forall>h hs. stepOf h s = None \<longrightarrow> stepOf h (fadeTicks cfg s hs) = None)"
proof -
  have A: "fadeIntervals (fadeIn cfg (Some c) s) = fadeIntervals s @ [fadeInTimer cfg c s]"
    "fadeIntervals (fadeOut cfg (Some c) cb s) = fadeIntervals s @ [fadeOutTimer cfg c cb s]"
    by (simp_all add: fadeIn_adds fadeOut_adds fadeInTimer_def fadeOutTimer_def)
  have B: "length (channelFades c (fadeIn cfg (Some c) s)) = Suc (length (channelFades c s))"
    "length (channelFades c (fadeOut cfg (Some c) cb s)) = Suc (length (channelFades c s))"
    by (simp_all add: channelFades_def fadeIn_adds fadeOut_adds)
  show ?thesis using A B timer_dies[of _ s] stepOf_ticks_none[of _ s] by blast
qed

theorem fades_add_timers_and_clear_themselves_witness:
  "length (channelFades 0 (fadeIn exact_cfg (Some 0) (fadeOut exact_cfg (Some 0) True audio_example))) =
     Suc (length (channelFades 0 (fadeOut exact_cfg (Some 0) True audio_example))) \<and>
   stepOf 1 (fadeOut exact_cfg (Some 0) True audio_example) = Some 0 \<and>
   stepOf 1 (fadeTicks exact_cfg (fadeOut exact_cfg (Some 0) True audio_example) (replicate 20 1)) = None"
proof -
  have h: "stepOf 1 (fadeOut exact_cfg (Some 0) True audio_example) = Some 0"
    by (simp add: stepOf_def fadeOut_def audio_example_def Let_def)
  have k: "(0::nat) < steps" "steps \<le> 0 + count_list (replicate 20 (1::nat)) 1"
    by (simp_all add: steps_def count_replicate)
  note T = fades_add_timers_and_clear_themselves[of exact_cfg 0 "fadeOut exact_cfg (Some 0) True audio_example" True]
  from T h k have "stepOf 1 (fadeTicks exact_cfg (fadeOut exact_cfg (Some 0) True audio_example) (replicate 20 1)) = None"
    by blast
  then show ?thesis using T h by blast
qed

text \<open>
  Claim C4 as stated fails: a fade-in started right after a fade-out on the same element
  leaves two interval timers alive on it, and when both fire in turn the volume written
  jumps between the falling and the rising ramp.
\<close>

theorem two_fades_compete:
  "length (channelFades 0 (fadeIn exact_cfg (Some 0) (fadeOut exact_cfg (Some 0) True audio_example))) = 2 \<and>
   \<not> length (channelFades 0 (fadeIn exact_cfg (Some 0) (fadeOut exact_cfg (Some 0) True audio_example))) \<le> 1 \<and>
   map snd (volumeWrites (fadeTicks exact_cfg
      (fadeIn exact_cfg (Some 0) (fadeOut exact_cfg (Some 0) True audio_example)) [1, 2, 1, 2])) =
     [0, 0.665, 0.035, 0.63, 0.07]"
  by (simp add: channelFades_def fadeIn_def fadeOut_def audio_example_def exact_cfg_def Let_def
      setVolume_def fadeTicks_def fadeTick_def fadeInTick_def fadeOutTick_def setStep_def
      clearFade_def steps_def)

end
